theory Spec2Isabelle
  imports Main "HOL-Library.AList" "HOL-Library.Sublist"
begin

section \<open>Values\<close>

text \<open>
  The configuration objects of \<^verbatim>\<open>server.ts\<close> are typed \<^verbatim>\<open>any\<close>: they are whatever
  \<^verbatim>\<open>JSON.parse\<close> or the client's settings deliver. They are modelled as JSON trees.
  An object is an association list of its own properties in insertion order; a JavaScript
  object never holds a key twice, so the lists that stand for objects have distinct keys.
  (JavaScript enumerates the keys that are array indices before the others; what the code
  holds under a key does not depend on the order in which keys are enumerated.)
  A number is carried as an integer: the code tests a number for being zero (truthiness),
  lodash tests a \<^verbatim>\<open>length\<close> for being the length of an array, and nothing computes with a
  number. Numbers with a fraction are left out.

  Where the source may hold \<^verbatim>\<open>undefined\<close>, the model uses \<open>json option\<close> with \<open>None\<close> for
  \<^verbatim>\<open>undefined\<close>; \<^verbatim>\<open>null\<close> is \<open>JNull\<close>.
\<close>

datatype json =
    JNull
  | JBool bool
  | JNum int
  | JStr string
  | JArr "json list"
  | JObj "(string \<times> json) list"

text \<open>JavaScript truthiness, as used by \<^verbatim>\<open>if (x)\<close>, \<^verbatim>\<open>!x\<close> and \<^verbatim>\<open>x && y\<close>.\<close>

fun truthy :: "json \<Rightarrow> bool" where
  "truthy JNull = False"
| "truthy (JBool b) = b"
| "truthy (JNum n) = (n \<noteq> 0)"
| "truthy (JStr s) = (s \<noteq> [])"
| "truthy (JArr xs) = True"
| "truthy (JObj kvs) = True"

definition truthyU :: "json option \<Rightarrow> bool" where
  "truthyU v = (case v of None \<Rightarrow> False | Some j \<Rightarrow> truthy j)"

text \<open>Truthiness of a string that may be \<^verbatim>\<open>null\<close> or \<^verbatim>\<open>undefined\<close>.\<close>

definition truthyPath :: "string option \<Rightarrow> bool" where
  "truthyPath p = (case p of None \<Rightarrow> False | Some s \<Rightarrow> s \<noteq> [])"

text \<open>
  Reading a property \<^verbatim>\<open>v.k\<close> of a value that is not \<^verbatim>\<open>null\<close>, for the keys the code reads
  (\<^verbatim>\<open>extends\<close>, \<^verbatim>\<open>jshintConfig\<close>, \<^verbatim>\<open>config\<close>): an object gives its own property, every
  other value gives \<^verbatim>\<open>undefined\<close>. On \<^verbatim>\<open>null\<close> the access throws; the callers below test
  for \<open>JNull\<close> before they use \<open>field\<close>.
\<close>

fun field :: "json \<Rightarrow> string \<Rightarrow> json option" where
  "field (JObj kvs) k = map_of kvs k"
| "field _ k = None"

text \<open>\<^verbatim>\<open>delete v.k\<close>.\<close>

fun deleteField :: "string \<Rightarrow> json \<Rightarrow> json" where
  "deleteField k (JObj kvs) = JObj (AList.delete k kvs)"
| "deleteField k v = v"

text \<open>
  What a call can end with instead of a value: a \<^verbatim>\<open>TypeError\<close> or a \<^verbatim>\<open>RangeError\<close> thrown
  to the caller, and \<open>NotATree\<close>: the value has left the JSON trees (properties hung on an
  array or on a wrapper object, an array that holds \<^verbatim>\<open>undefined\<close>). What the code does with
  such a value is not followed further.
\<close>

datatype error =
    TypeError
  | RangeError
  | NotATree

text \<open>
  The text of a file is a JavaScript string: a list of UTF-16 code units, here natural
  numbers. Paths and messages are character lists.
\<close>

type_synonym jstext = "nat list"

section \<open>Comment stripping\<close>

text \<open>A character list as a JavaScript string (every character is one code unit).\<close>

definition js :: "string \<Rightarrow> jstext" where
  "js s = map of_char s"

text \<open>
  The regular expression of \<^verbatim>\<open>stripComments\<close> is
  \<^verbatim>\<open>("(?:[^\\\"]*(?:\\.)?)*")|('(?:[^\\\']*(?:\\.)?)*')|(\/\*(?:\r?\n|.)*?\*\/)|(\/{2,}.*?(?:(?:\r?\n)|$))\<close>
  with the flag \<^verbatim>\<open>g\<close>. \<^verbatim>\<open>String.prototype.replace\<close> scans the text from the left: at each
  position it tries the four alternatives in order; where one matches, the callback's
  result replaces the match and the scan goes on behind it; where none matches, the
  character is copied and the scan moves one position on. No alternative matches the empty
  string. Each alternative is modelled by the function that its backtracking search
  computes; a match is returned as the matched text and the rest behind it.

  The code units: 34 is the double quote, 39 the single quote, 47 the slash, 42 the star,
  92 the backslash, 10 the line feed, 13 the carriage return. Without the flag \<^verbatim>\<open>s\<close>
  the dot matches every code unit but the four line terminators.
\<close>

definition lineTerminator :: "nat \<Rightarrow> bool" where
  "lineTerminator c = (c = 10 \<or> c = 13 \<or> c = 8232 \<or> c = 8233)"

text \<open>
  Alternatives 1 and 2, behind the opening quote \<open>q\<close>: a run of units, each a code unit
  other than the backslash and \<open>q\<close>, or a backslash and a code unit the dot matches, up to
  the first \<open>q\<close> that stands where a unit would start. A backslash can only start an
  escape and \<open>q\<close> can only close, so the split into units is forced and backtracking
  finds no other match; a backslash before a line terminator or at the end of the text,
  and a text that ends before the closing quote, make the alternative fail.
\<close>

fun quoted :: "nat \<Rightarrow> jstext \<Rightarrow> (jstext \<times> jstext) option" where
  "quoted q [] = None"
| "quoted q (c # cs) =
     (if c = q then Some ([c], cs)
      else if c = 92 then
        (case cs of
           [] \<Rightarrow> None
         | d # ds \<Rightarrow>
             if lineTerminator d then None
             else map_option (\<lambda>(m, r). (c # d # m, r)) (quoted q ds))
      else map_option (\<lambda>(m, r). (c # m, r)) (quoted q cs))"

text \<open>
  Alternative 3, behind \<^verbatim>\<open>/*\<close>: the lazy loop stops at the first \<^verbatim>\<open>*/\<close>; before it, it
  steps over \<^verbatim>\<open>\r\n\<close>, over \<^verbatim>\<open>\n\<close> and over every code unit the dot matches. A
  carriage return without a line feed (and U+2028, U+2029) stops it: the alternative fails.
\<close>

fun blockBody :: "jstext \<Rightarrow> (jstext \<times> jstext) option" where
  "blockBody (c # d # ds) =
     (if c = 42 \<and> d = 47 then Some ([c, d], ds)
      else if c = 13 \<and> d = 10 then map_option (\<lambda>(m, r). (c # d # m, r)) (blockBody ds)
      else if c = 10 \<or> \<not> lineTerminator c then
        map_option (\<lambda>(m, r). (c # m, r)) (blockBody (d # ds))
      else None)"
| "blockBody cs = None"

text \<open>
  Alternative 4, behind the first two slashes (further slashes are code units the dot
  matches): the lazy loop stops at the first \<^verbatim>\<open>\r\n\<close> or \<^verbatim>\<open>\n\<close>, which it takes into the
  match, or at the end of the text (\<^verbatim>\<open>$\<close>, no flag \<^verbatim>\<open>m\<close>); another line terminator in
  its way makes the alternative fail.
\<close>

fun lineBody :: "jstext \<Rightarrow> (jstext \<times> jstext) option" where
  "lineBody [] = Some ([], [])"
| "lineBody (c # cs) =
     (if c = 13 \<and> (case cs of d # ds \<Rightarrow> d = 10 | [] \<Rightarrow> False) then Some ([c, 10], tl cs)
      else if c = 10 then Some ([c], cs)
      else if lineTerminator c then None
      else map_option (\<lambda>(m, r). (c # m, r)) (lineBody cs))"

text \<open>The capturing group that matched, and the alternatives tried at one position.\<close>

datatype group = M1 | M2 | M3 | M4

definition matchAt :: "jstext \<Rightarrow> (group \<times> jstext \<times> jstext) option" where
  "matchAt content =
     (case content of
        [] \<Rightarrow> None
      | c # cs \<Rightarrow>
          if c = 34 then map_option (\<lambda>(m, r). (M1, c # m, r)) (quoted 34 cs)
          else if c = 39 then map_option (\<lambda>(m, r). (M2, c # m, r)) (quoted 39 cs)
          else if c = 47 then
            (case cs of
               [] \<Rightarrow> None
             | d # ds \<Rightarrow>
                 if d = 42 then map_option (\<lambda>(m, r). (M3, c # d # m, r)) (blockBody ds)
                 else if d = 47 then map_option (\<lambda>(m, r). (M4, c # d # m, r)) (lineBody ds)
                 else None)
          else None)"

text \<open>The callback of \<^verbatim>\<open>replace\<close>, given the group that matched and the match.\<close>

definition replacer :: "group \<Rightarrow> jstext \<Rightarrow> jstext" where
  "replacer g m =
     (case g of
        M3 \<Rightarrow> []
      | M4 \<Rightarrow>
          (let n = length m in
           if n > 2 \<and> m ! (n - 1) = 10 then (if m ! (n - 2) = 13 then [13, 10] else [10])
           else [])
      | _ \<Rightarrow> m)"

lemma quoted_split: "quoted q x = Some (m, r) \<Longrightarrow> x = m @ r \<and> m \<noteq> []"
proof (induction q x arbitrary: m r rule: quoted.induct)
  case (1 q)
  then show ?case by simp
next
  case (2 q c cs)
  show ?case
  proof (cases "c = q")
    case True
    with "2.prems" show ?thesis by auto
  next
    case False
    note neq = this
    show ?thesis
    proof (cases "c = 92")
      case True
      with neq "2.prems" obtain d ds m' where cs: "cs = d # ds" and nt: "\<not> lineTerminator d"
        and rec: "quoted q ds = Some (m', r)" and m: "m = c # d # m'"
        by (auto split: list.splits if_splits)
      from "2.IH"(1)[OF neq True cs nt rec] cs m show ?thesis by simp
    next
      case False
      with neq "2.prems" obtain m' where rec: "quoted q cs = Some (m', r)" and m: "m = c # m'"
        by auto
      from "2.IH"(2)[OF neq False rec] m show ?thesis by simp
    qed
  qed
qed


lemma blockBody_split: "blockBody x = Some (m, r) \<Longrightarrow> x = m @ r \<and> m \<noteq> []"
proof (induction x arbitrary: m r rule: blockBody.induct)
  case (1 c d ds)
  show ?case
  proof (cases "c = 42 \<and> d = 47")
    case True
    with "1.prems" show ?thesis by auto
  next
    case False
    note nclose = this
    show ?thesis
    proof (cases "c = 13 \<and> d = 10")
      case True
      with nclose "1.prems" obtain m' where rec: "blockBody ds = Some (m', r)"
        and m: "m = c # d # m'"
        by auto
      from "1.IH"(1)[OF nclose True rec] m show ?thesis by simp
    next
      case False
      note ncrlf = this
      show ?thesis
      proof (cases "c = 10 \<or> \<not> lineTerminator c")
        case True
        with nclose ncrlf "1.prems" obtain m' where rec: "blockBody (d # ds) = Some (m', r)"
          and m: "m = c # m'"
          by auto
        from "1.IH"(2)[OF nclose ncrlf True rec] m show ?thesis by simp
      next
        case False
        with nclose ncrlf "1.prems" show ?thesis by (auto split: if_splits)
      qed
    qed
  qed
qed simp_all

lemma lineBody_split: "lineBody x = Some (m, r) \<Longrightarrow> x = m @ r"
proof (induction x arbitrary: m r rule: lineBody.induct)
  case 1
  then show ?case by simp
next
  case (2 c cs)
  show ?case
  proof (cases "c = 13 \<and> (case cs of d # ds \<Rightarrow> d = 10 | [] \<Rightarrow> False)")
    case True
    with "2.prems" show ?thesis by (cases cs) auto
  next
    case False
    note ncrlf = this
    show ?thesis
    proof (cases "c = 10")
      case True
      with ncrlf "2.prems" show ?thesis by auto
    next
      case False
      note nlf = this
      show ?thesis
      proof (cases "lineTerminator c")
        case True
        with ncrlf nlf "2.prems" show ?thesis by (auto split: if_splits)
      next
        case False
        with ncrlf nlf "2.prems" obtain m' where rec: "lineBody cs = Some (m', r)"
          and m: "m = c # m'"
          by auto
        from "2.IH"[OF ncrlf nlf False rec] m show ?thesis by simp
      qed
    qed
  qed
qed

lemma matchAt_Nil: "matchAt [] = None"
  by (simp add: matchAt_def)

lemma matchAt_Cons:
  "matchAt (c # cs) =
     (if c = 34 then map_option (\<lambda>(m, r). (M1, c # m, r)) (quoted 34 cs)
      else if c = 39 then map_option (\<lambda>(m, r). (M2, c # m, r)) (quoted 39 cs)
      else if c = 47 then
        (case cs of
           [] \<Rightarrow> None
         | d # ds \<Rightarrow>
             if d = 42 then map_option (\<lambda>(m, r). (M3, c # d # m, r)) (blockBody ds)
             else if d = 47 then map_option (\<lambda>(m, r). (M4, c # d # m, r)) (lineBody ds)
             else None)
      else None)"
  by (simp add: matchAt_def)

lemma matchAt_other: "c \<noteq> 34 \<Longrightarrow> c \<noteq> 39 \<Longrightarrow> c \<noteq> 47 \<Longrightarrow> matchAt (c # cs) = None"
  by (simp add: matchAt_Cons)

lemma matchAt_split: "matchAt x = Some (g, m, r) \<Longrightarrow> x = m @ r \<and> m \<noteq> []"
proof (cases x)
  case Nil
  assume "matchAt x = Some (g, m, r)"
  with Nil show ?thesis by (simp add: matchAt_Nil)
next
  case (Cons c cs)
  assume a: "matchAt x = Some (g, m, r)"
  consider (dq) "c = 34" | (sq) "c = 39" | (sl) "c = 47" | (other) "c \<noteq> 34" "c \<noteq> 39" "c \<noteq> 47"
    by blast
  then show ?thesis
  proof cases
    case dq
    with a Cons obtain m' where "quoted 34 cs = Some (m', r)" "m = c # m'"
      by (auto simp: matchAt_Cons)
    with Cons quoted_split[of 34 cs m' r] show ?thesis by simp
  next
    case sq
    with a Cons obtain m' where "quoted 39 cs = Some (m', r)" "m = c # m'"
      by (auto simp: matchAt_Cons)
    with Cons quoted_split[of 39 cs m' r] show ?thesis by simp
  next
    case sl
    show ?thesis
    proof (cases cs)
      case Nil
      with a Cons sl show ?thesis by (simp add: matchAt_Cons)
    next
      case (Cons d ds)
      consider (block) "d = 42" | (line) "d = 47" | (none) "d \<noteq> 42" "d \<noteq> 47" by blast
      then show ?thesis
      proof cases
        case block
        with a \<open>x = c # cs\<close> Cons sl obtain m' where "blockBody ds = Some (m', r)" "m = c # d # m'"
          by (auto simp: matchAt_Cons)
        with \<open>x = c # cs\<close> Cons blockBody_split[of ds m' r] show ?thesis by simp
      next
        case line
        with a \<open>x = c # cs\<close> Cons sl obtain m' where "lineBody ds = Some (m', r)" "m = c # d # m'"
          by (auto simp: matchAt_Cons)
        with \<open>x = c # cs\<close> Cons lineBody_split[of ds m' r] show ?thesis by simp
      next
        case none
        with a \<open>x = c # cs\<close> Cons sl show ?thesis by (simp add: matchAt_Cons)
      qed
    qed
  next
    case other
    with a Cons show ?thesis by (simp add: matchAt_other)
  qed
qed

lemma matchAt_shorter: "matchAt x = Some (g, m, r) \<Longrightarrow> length r < length x"
  by (drule matchAt_split) (cases m, auto)

function stripComments :: "jstext \<Rightarrow> jstext" where
  "stripComments content =
     (case matchAt content of
        Some (g, m, r) \<Rightarrow> replacer g m @ stripComments r
      | None \<Rightarrow> (case content of [] \<Rightarrow> [] | c # cs \<Rightarrow> c # stripComments cs))"
  by pat_completeness auto
termination
proof (relation "measure length")
  show "wf (measure length)" by simp
next
  fix content x2 x y xa ya
  assume "matchAt content = Some x2" "(x, y) = x2" "(xa, ya) = y"
  then have "matchAt content = Some (x, xa, ya)" by simp
  then show "(ya, content) \<in> measure length" using matchAt_shorter by simp
next
  fix content :: jstext and x21 x22
  assume "content = x21 # x22"
  then show "(x22, content) \<in> measure length" by simp
qed

declare stripComments.simps [simp del]


text \<open>
  A text is tidy when the scan leaves no quote and no slash outside the strings and
  comments it recognises, as in every JSON document with comments.
\<close>

function tidy :: "jstext \<Rightarrow> bool" where
  "tidy content =
     (case matchAt content of
        Some (g, m, r) \<Rightarrow> tidy r
      | None \<Rightarrow>
          (case content of
             [] \<Rightarrow> True
           | c # cs \<Rightarrow> c \<noteq> 34 \<and> c \<noteq> 39 \<and> c \<noteq> 47 \<and> tidy cs))"
  by pat_completeness auto
termination
proof (relation "measure length")
  show "wf (measure length)" by simp
next
  fix content x2 x y xa ya
  assume "matchAt content = Some x2" "(x, y) = x2" "(xa, ya) = y"
  then have "matchAt content = Some (x, xa, ya)" by simp
  then show "(ya, content) \<in> measure length" using matchAt_shorter by simp
next
  fix content :: jstext and x21 x22
  assume "content = x21 # x22"
  then show "(x22, content) \<in> measure length" by simp
qed

declare tidy.simps [simp del]

lemma stripComments_Nil: "stripComments [] = []"
  by (subst stripComments.simps) (simp add: matchAt_Nil)

lemma stripComments_match:
  "matchAt x = Some (g, m, r) \<Longrightarrow> stripComments x = replacer g m @ stripComments r"
  by (subst stripComments.simps) simp

lemma stripComments_plain:
  "c \<noteq> 34 \<Longrightarrow> c \<noteq> 39 \<Longrightarrow> c \<noteq> 47 \<Longrightarrow> stripComments (c # z) = c # stripComments z"
  by (subst stripComments.simps) (simp add: matchAt_other)

lemma quoted_prefix: "quoted q x = Some (m, r) \<Longrightarrow> quoted q (m @ z) = Some (m, z)"
proof (induction q x arbitrary: m r rule: quoted.induct)
  case (1 q)
  then show ?case by simp
next
  case (2 q c cs)
  show ?case
  proof (cases "c = q")
    case True
    with "2.prems" show ?thesis by auto
  next
    case False
    note neq = this
    show ?thesis
    proof (cases "c = 92")
      case True
      with neq "2.prems" obtain d ds m' where cs: "cs = d # ds" and nt: "\<not> lineTerminator d"
        and rec: "quoted q ds = Some (m', r)" and m: "m = c # d # m'"
        by (auto split: list.splits if_splits)
      from "2.IH"(1)[OF neq True cs nt rec] neq True nt m show ?thesis by simp
    next
      case False
      with neq "2.prems" obtain m' where rec: "quoted q cs = Some (m', r)" and m: "m = c # m'"
        by auto
      from "2.IH"(2)[OF neq False rec] neq False m show ?thesis by simp
    qed
  qed
qed

lemma matchAt_groups:
  assumes "matchAt x = Some (g, m, r)"
  shows "(g = M1 \<and> (\<exists>m'. m = 34 # m' \<and> quoted 34 (m' @ r) = Some (m', r))) \<or>
         (g = M2 \<and> (\<exists>m'. m = 39 # m' \<and> quoted 39 (m' @ r) = Some (m', r))) \<or>
         (g = M3) \<or>
         (g = M4 \<and> (\<exists>m'. m = 47 # 47 # m' \<and> lineBody (m' @ r) = Some (m', r)))"
proof (cases x)
  case Nil
  with assms show ?thesis by (simp add: matchAt_Nil)
next
  case (Cons c cs)
  consider (dq) "c = 34" | (sq) "c = 39" | (sl) "c = 47" | (other) "c \<noteq> 34" "c \<noteq> 39" "c \<noteq> 47"
    by blast
  then show ?thesis
  proof cases
    case dq
    with assms Cons obtain m' where q: "quoted 34 cs = Some (m', r)" and m: "m = c # m'" and g: "g = M1"
      by (auto simp: matchAt_Cons)
    from quoted_split[OF q] q have "quoted 34 (m' @ r) = Some (m', r)" by simp
    with m g dq show ?thesis by simp
  next
    case sq
    with assms Cons obtain m' where q: "quoted 39 cs = Some (m', r)" and m: "m = c # m'" and g: "g = M2"
      by (auto simp: matchAt_Cons)
    from quoted_split[OF q] q have "quoted 39 (m' @ r) = Some (m', r)" by simp
    with m g sq show ?thesis by simp
  next
    case sl
    show ?thesis
    proof (cases cs)
      case Nil
      with assms Cons sl show ?thesis by (simp add: matchAt_Cons)
    next
      case (Cons d ds)
      consider (block) "d = 42" | (line) "d = 47" | (none) "d \<noteq> 42" "d \<noteq> 47" by blast
      then show ?thesis
      proof cases
        case block
        with assms \<open>x = c # cs\<close> Cons sl have "g = M3"
          by (auto simp: matchAt_Cons)
        then show ?thesis by simp
      next
        case line
        with assms \<open>x = c # cs\<close> Cons sl obtain m' where l: "lineBody ds = Some (m', r)"
          and m: "m = c # d # m'" and g: "g = M4"
          by (auto simp: matchAt_Cons)
        from lineBody_split[OF l] l have "lineBody (m' @ r) = Some (m', r)" by simp
        with m g sl line show ?thesis by simp
      next
        case none
        with assms \<open>x = c # cs\<close> Cons sl show ?thesis by (simp add: matchAt_Cons)
      qed
    qed
  next
    case other
    with assms Cons show ?thesis by (simp add: matchAt_other)
  qed
qed

lemma stripComments_quoted:
  assumes "q = 34 \<or> q = 39" and "quoted q (s @ r) = Some (s, r)"
  shows "stripComments (q # s @ z) = q # s @ stripComments z"
proof -
  from quoted_prefix[OF assms(2)] have p: "quoted q (s @ z) = Some (s, z)" .
  from assms(1) p have "matchAt (q # s @ z) = Some (if q = 34 then M1 else M2, q # s, z)"
    by (auto simp: matchAt_Cons)
  from stripComments_match[OF this] show ?thesis
    by (simp add: replacer_def)
qed

lemma replacer_M4_cases: "replacer M4 m = [] \<or> replacer M4 m = [10] \<or> replacer M4 m = [13, 10]"
  by (simp add: replacer_def Let_def)

lemma stripComments_terminator:
  "p = [] \<or> p = [10] \<or> p = [13, 10] \<Longrightarrow> stripComments (p @ z) = p @ stripComments z"
  by (auto simp: stripComments_plain)

lemma stripComments_idem_tidy: "tidy x \<Longrightarrow> stripComments (stripComments x) = stripComments x"
proof (induction "length x" arbitrary: x rule: less_induct)
  case less
  show ?case
  proof (cases "matchAt x")
    case None
    show ?thesis
    proof (cases x)
      case Nil
      then show ?thesis by (simp add: stripComments_Nil)
    next
      case (Cons c cs)
      from less.prems None Cons have c: "c \<noteq> 34" "c \<noteq> 39" "c \<noteq> 47" and t: "tidy cs"
        by (subst (asm) tidy.simps, simp)+
      from less.hyps[of cs] t Cons have "stripComments (stripComments cs) = stripComments cs"
        by simp
      with c Cons show ?thesis by (simp add: stripComments_plain)
    qed
  next
    case (Some t)
    then obtain g m r where mt: "matchAt x = Some (g, m, r)" by (cases t) auto
    from less.prems mt have t: "tidy r" by (subst (asm) tidy.simps) simp
    from less.hyps[of r] matchAt_shorter[OF mt] t
    have ih: "stripComments (stripComments r) = stripComments r" by simp
    have sx: "stripComments x = replacer g m @ stripComments r"
      by (rule stripComments_match[OF mt])
    from matchAt_groups[OF mt] show ?thesis
    proof (elim disjE conjE exE)
      fix m' assume g: "g = M1" and m: "m = 34 # m'" and q: "quoted 34 (m' @ r) = Some (m', r)"
      from stripComments_quoted[of 34 m' r "stripComments r", OF _ q] ih sx g m
      show ?thesis by (simp add: replacer_def)
    next
      fix m' assume g: "g = M2" and m: "m = 39 # m'" and q: "quoted 39 (m' @ r) = Some (m', r)"
      from stripComments_quoted[of 39 m' r "stripComments r", OF _ q] ih sx g m
      show ?thesis by (simp add: replacer_def)
    next
      assume g: "g = M3"
      with sx ih show ?thesis by (simp add: replacer_def)
    next
      fix m' assume g: "g = M4"
      from stripComments_terminator[OF replacer_M4_cases, of m "stripComments r"] sx ih g
      show ?thesis by simp
    qed
  qed
qed

section \<open>The host: file system, path library, parser\<close>

text \<open>
  Everything \<^verbatim>\<open>server.ts\<close> imports is a parameter of the model, gathered in one record:
  the file system (\<^verbatim>\<open>fs.existsSync\<close>, \<^verbatim>\<open>fs.readFileSync(f).toString()\<close>, which throws on
  \<open>None\<close>), the \<^verbatim>\<open>path\<close> module, \<^verbatim>\<open>JSON.parse\<close> (\<open>None\<close> is its \<^verbatim>\<open>SyntaxError\<close>), the
  environment variable that \<^verbatim>\<open>getUserHome\<close> reads, \<^verbatim>\<open>parse-gitignore\<close> applied to a path
  and \<^verbatim>\<open>minimatch\<close>. A change of the files on disk is a change of this record.
\<close>

record host =
  existsSync :: "string \<Rightarrow> bool"
  readFileSync :: "string \<Rightarrow> jstext option"
  parseJSON :: "jstext \<Rightarrow> json option"
  dirname :: "string \<Rightarrow> string"
  joinPath :: "string \<Rightarrow> string \<Rightarrow> string"
  resolvePath :: "string \<Rightarrow> string \<Rightarrow> string"
  userHome :: "string option"
  processIgnoreFile :: "string \<Rightarrow> string list"
  minimatch :: "string \<Rightarrow> string \<Rightarrow> bool"

text \<open>
  \<^verbatim>\<open>locateFile\<close>: the \<^verbatim>\<open>do ... while (parent !== directory)\<close> loop. Whether it ends
  depends on \<^verbatim>\<open>path.dirname\<close> reaching a fixed point, so a search that never ends is
  \<open>None\<close>; \<open>Some None\<close> is the \<^verbatim>\<open>undefined\<close> returned when nothing was found.
\<close>

partial_function (option) locateFile :: "host \<Rightarrow> string \<Rightarrow> string \<Rightarrow> string option option" where
  "locateFile h directory fileName =
     (let location = joinPath h directory fileName in
      if existsSync h location then Some (Some location)
      else let parent = dirname h directory in
           if parent \<noteq> directory then locateFile h parent fileName else Some None)"

section \<open>Merging configurations\<close>

text \<open>
  \<^verbatim>\<open>_.mergeWith(object, source, customizer)\<close> is lodash's; the functions below follow
  \<^verbatim>\<open>baseMerge\<close>, \<^verbatim>\<open>baseMergeDeep\<close>, \<^verbatim>\<open>assignMergeValue\<close>, \<^verbatim>\<open>safeGet\<close> and \<^verbatim>\<open>copyArray\<close> of
  lodash 4.17.21. The merge goes through the own properties of \<^verbatim>\<open>source\<close> in order and, for
  each key, asks the customizer with the value the object holds under the key
  (\<^verbatim>\<open>undefined\<close> when it holds none) and the source's value. A result other than
  \<^verbatim>\<open>undefined\<close> becomes the object's value. Otherwise the source's value decides:

  \<^item> a primitive, \<^verbatim>\<open>null\<close> included, replaces the object's value;

  \<^item> a plain object is merged recursively, with the same customizer, into the object the
    destination holds under the key, or into a new empty object when the destination
    holds a primitive or nothing there;

  \<^item> an array is merged index by index into a new array: a copy of the destination's
    value when that is array-like (\<^verbatim>\<open>isArrayLikeObject\<close>: an object whose \<^verbatim>\<open>length\<close> is a
    number that \<^verbatim>\<open>isLength\<close> accepts), the empty array otherwise. The customizer below has
    taken the case of an array in the destination.

  Under the key \<^verbatim>\<open>__proto__\<close>, \<^verbatim>\<open>safeGet\<close> reads \<^verbatim>\<open>undefined\<close> on both sides: an object or
  array of the source is dropped there, and a primitive is defined as an own property
  without asking what the object holds. The object is changed in place and returned.

  \<^verbatim>\<open>baseValue.concat(contentValue)\<close> appends the elements of an array argument, and any
  other argument as one element.
\<close>

fun concatArg :: "json \<Rightarrow> json list" where
  "concatArg (JArr ys) = ys"
| "concatArg v = [v]"

text \<open>
  The customizer of \<^verbatim>\<open>readJSHintFile\<close>: \<^verbatim>\<open>if (_.isArray(baseValue)) return
  baseValue.concat(contentValue)\<close>, and \<^verbatim>\<open>undefined\<close> (\<open>None\<close>) otherwise.
\<close>

definition customizer :: "json option \<Rightarrow> json \<Rightarrow> json option" where
  "customizer baseValue contentValue =
     (case baseValue of
        Some (JArr xs) \<Rightarrow> Some (JArr (xs @ concatArg contentValue))
      | _ \<Rightarrow> None)"

text \<open>
  \<^verbatim>\<open>isObject\<close>: arrays and objects. \<^verbatim>\<open>isLength\<close>: a number that is an integer from \<open>0\<close> to
  \<^verbatim>\<open>Number.MAX_SAFE_INTEGER\<close>. \<open>indexKey\<close>: the property name of an array index, its
  decimal digits.
\<close>

fun isObject :: "json \<Rightarrow> bool" where
  "isObject (JArr xs) = True"
| "isObject (JObj kvs) = True"
| "isObject v = False"

fun isLength :: "json \<Rightarrow> bool" where
  "isLength (JNum n) = (0 \<le> n \<and> n \<le> 9007199254740991)"
| "isLength v = False"

function indexKey :: "nat \<Rightarrow> string" where
  "indexKey n =
     (if n < 10 then [char_of (48 + n)]
      else indexKey (n div 10) @ [char_of (48 + n mod 10)])"
  by pat_completeness auto
termination by (relation "measure id") auto

declare indexKey.simps [simp del]

text \<open>
  The array that an array of the source is merged into, for a destination value that is
  no array: \<^verbatim>\<open>copyArray(objValue)\<close> when the value is array-like, \<^verbatim>\<open>[]\<close> otherwise.
  \<^verbatim>\<open>copyArray\<close> calls \<^verbatim>\<open>Array(length)\<close>, which throws a \<^verbatim>\<open>RangeError\<close> for a length above
  \<^verbatim>\<open>4294967295\<close>, and fills it with what the object holds under the indices below the length:
  \<open>None\<close> is the \<^verbatim>\<open>undefined\<close> of an index the object does not hold.
\<close>

definition copyArray :: "json option \<Rightarrow> error + json option list" where
  "copyArray objValue =
     (case objValue of
        Some (JObj obj) \<Rightarrow>
          (case map_of obj ''length'' of
             Some (JNum n) \<Rightarrow>
               if isLength (JNum n) then
                 (if n > 4294967295 then Inl RangeError
                  else Inr (map (\<lambda>i. map_of obj (indexKey i)) [0..<nat n]))
               else Inr []
           | _ \<Rightarrow> Inr [])
      | _ \<Rightarrow> Inr [])"

text \<open>
  \<open>mergeValue\<close> is the new value of one property, \<open>mergeFields\<close> the merge of the
  properties of a source object into an object, \<open>mergeItems\<close> the merge of the items of a
  source array into the new array, whose items may be \<^verbatim>\<open>undefined\<close>. An array that still
  holds \<^verbatim>\<open>undefined\<close> when the merge is done is \<open>NotATree\<close>.
\<close>

fun mergeValue :: "json option \<Rightarrow> json \<Rightarrow> error + json"
  and mergeFields ::
    "(string \<times> json) list \<Rightarrow> (string \<times> json) list \<Rightarrow> error + (string \<times> json) list"
  and mergeItems :: "json option list \<Rightarrow> json list \<Rightarrow> error + json option list" where
  "mergeValue objValue srcValue =
     (case customizer objValue srcValue of
        Some newValue \<Rightarrow> Inr newValue
      | None \<Rightarrow>
          (case srcValue of
             JArr src \<Rightarrow>
               (case copyArray objValue of
                  Inl e \<Rightarrow> Inl e
                | Inr newValue \<Rightarrow>
                    (case mergeItems newValue src of
                       Inl e \<Rightarrow> Inl e
                     | Inr merged \<Rightarrow>
                         (case those merged of
                            Some items \<Rightarrow> Inr (JArr items)
                          | None \<Rightarrow> Inl NotATree)))
           | JObj src \<Rightarrow>
               (case mergeFields (case objValue of Some (JObj obj) \<Rightarrow> obj | _ \<Rightarrow> []) src of
                  Inl e \<Rightarrow> Inl e
                | Inr merged \<Rightarrow> Inr (JObj merged))
           | _ \<Rightarrow> Inr srcValue))"
| "mergeFields object [] = Inr object"
| "mergeFields object ((key, srcValue) # source) =
     (if key = ''__proto__'' then
        (if isObject srcValue then mergeFields object source
         else mergeFields (AList.update key srcValue object) source)
      else
        (case mergeValue (map_of object key) srcValue of
           Inl e \<Rightarrow> Inl e
         | Inr newValue \<Rightarrow> mergeFields (AList.update key newValue object) source))"
| "mergeItems newValue [] = Inr newValue"
| "mergeItems newValue (srcValue # source) =
     (case mergeValue (case newValue of [] \<Rightarrow> None | objValue # _ \<Rightarrow> objValue) srcValue of
        Inl e \<Rightarrow> Inl e
      | Inr item \<Rightarrow>
          (case mergeItems (tl newValue) source of
             Inl e \<Rightarrow> Inl e
           | Inr items \<Rightarrow> Inr (Some item # items)))"

text \<open>
  The call at top level. \<^verbatim>\<open>readJSHintFile\<close> passes the value it read from the base file
  as the object. Where that is an array or a primitive, lodash hangs the source's
  properties on the array or on a wrapper object, which is no JSON tree: \<open>NotATree\<close>.
\<close>

definition mergeWith :: "json \<Rightarrow> (string \<times> json) list \<Rightarrow> error + json" where
  "mergeWith object source =
     (case object of
        JObj obj \<Rightarrow>
          (case mergeFields obj source of
             Inl e \<Rightarrow> Inl e
           | Inr merged \<Rightarrow> Inr (JObj merged))
      | _ \<Rightarrow> Inl NotATree)"

fun fieldsOf :: "json \<Rightarrow> (string \<times> json) list" where
  "fieldsOf (JObj kvs) = kvs"
| "fieldsOf v = []"

section \<open>OptionsResolver\<close>

text \<open>
  The state of an \<^verbatim>\<open>OptionsResolver\<close>. The connection only receives the messages of
  \<^verbatim>\<open>showErrorMessage\<close>; the functions below return the messages they show, in order. The
  cache is an object without prototype read with \<^verbatim>\<open>optionsCache[fsPath]\<close>: a function from
  paths to values, \<open>None\<close> where the read gives \<^verbatim>\<open>undefined\<close>.
\<close>

record options_resolver =
  configPath :: "string option"
  jshintOptions :: "json option"
  optionsCache :: "string \<Rightarrow> json option"

definition JSHINTRC :: string where
  "JSHINTRC = ''.jshintrc''"

definition OptionsResolver_new :: options_resolver where
  "OptionsResolver_new =
     \<lparr>configPath = None, jshintOptions = Some JNull, optionsCache = (\<lambda>k. None)\<rparr>"

definition OptionsResolver_configure ::
  "string option \<Rightarrow> json option \<Rightarrow> options_resolver \<Rightarrow> options_resolver" where
  "OptionsResolver_configure path opts r =
     r\<lparr>optionsCache := (\<lambda>k. None), configPath := path, jshintOptions := opts\<rparr>"

definition OptionsResolver_clear :: "json option \<Rightarrow> options_resolver \<Rightarrow> options_resolver" where
  "OptionsResolver_clear opts r = r\<lparr>optionsCache := (\<lambda>k. None)\<rparr>"

definition cantLoad :: "string \<Rightarrow> string" where
  "cantLoad location =
     ''Can't load JSHint configuration from file '' @ location @
     ''. Please check the file for syntax errors.''"

definition cantFind :: "string \<Rightarrow> string \<Rightarrow> string" where
  "cantFind baseFile file = ''Can't find JSHint file '' @ baseFile @ '' extended from '' @ file"

text \<open>
  \<^verbatim>\<open>readJsonFile\<close>: the \<^verbatim>\<open>try\<close> block reads, strips and parses; whatever it throws is
  caught, reported and replaced by the empty object.
\<close>

definition readJsonFile :: "host \<Rightarrow> string \<Rightarrow> string option \<Rightarrow> string list \<times> json" where
  "readJsonFile h file extendedFrom =
     (case Option.bind (readFileSync h file) (\<lambda>content. parseJSON h (stripComments content)) of
        Some v \<Rightarrow> ([], v)
      | None \<Rightarrow>
          (let location =
                 (if truthyPath extendedFrom then file @ '' extended from '' @ the extendedFrom
                  else file)
           in ([cantLoad location], JObj [])))"

text \<open>
  \<^verbatim>\<open>readJSHintFile\<close>. The recursion follows \<^verbatim>\<open>extends\<close> from file to file and nothing
  bounds it: \<open>None\<close> is a resolution that does not return (in JavaScript the call stack
  runs out). \<open>Inl\<close> is an exception thrown to the caller: the \<^verbatim>\<open>TypeError\<close> of
  \<^verbatim>\<open>content.extends\<close> on \<^verbatim>\<open>null\<close>, that of \<^verbatim>\<open>path.resolve\<close> on an argument that is
  not a string, and what the merge ends with.
\<close>

partial_function (option) readJSHintFile ::
  "host \<Rightarrow> string \<Rightarrow> string option \<Rightarrow> (string list \<times> (error + json)) option" where
  "readJSHintFile h file extendedFrom =
     (case readJsonFile h file extendedFrom of
        (shown, content) \<Rightarrow>
          if content = JNull then Some (shown, Inl TypeError)
          else if truthyU (field content ''extends'') then
            (case the (field content ''extends'') of
               JStr ext \<Rightarrow>
                 (let baseFile = resolvePath h (dirname h file) ext in
                  if existsSync h baseFile then
                    Option.bind (readJSHintFile h baseFile (Some file))
                      (\<lambda>(shown', base).
                         case base of
                           Inl e \<Rightarrow> Some (shown @ shown', Inl e)
                         | Inr b \<Rightarrow>
                             Some (shown @ shown',
                                   map_sum id (deleteField ''extends'')
                                     (mergeWith b (fieldsOf content))))
                  else
                    Some (shown @ [cantFind baseFile file],
                          Inr (deleteField ''extends'' content)))
             | _ \<Rightarrow> Some (shown, Inl TypeError))
          else Some (shown, Inr content))"

text \<open>
  \<^verbatim>\<open>jshintOptions && jshintOptions.config\<close>, for the backward-compatible setting: the path
  when both are truthy. \<^verbatim>\<open>fs.existsSync\<close> is false on what is not a path, so only a string
  counts.
\<close>

definition legacyConfig :: "json option \<Rightarrow> string option" where
  "legacyConfig opts =
     (case opts of
        None \<Rightarrow> None
      | Some o' \<Rightarrow>
          if truthy o' then
            (case field o' ''config'' of
               Some (JStr s) \<Rightarrow> if s \<noteq> [] then Some s else None
             | _ \<Rightarrow> None)
          else None)"

text \<open>
  \<^verbatim>\<open>readOptions\<close>, in three parts: from the lookup of the home directory on
  (\<open>homeOptions\<close>), from the search for \<^verbatim>\<open>.jshintrc\<close> on (\<open>projectOptions\<close>), and the whole.
  \<open>shown\<close> are the messages shown so far.
\<close>

definition homeOptions ::
  "host \<Rightarrow> options_resolver \<Rightarrow> string list \<Rightarrow> (string list \<times> (error + json option)) option" where
  "homeOptions h r shown =
     (if truthyPath (userHome h) \<and> existsSync h (joinPath h (the (userHome h)) JSHINTRC) then
        map_option (\<lambda>(shown', v). (shown @ shown', map_sum id Some v))
          (readJSHintFile h (joinPath h (the (userHome h)) JSHINTRC) None)
      else Some (shown, Inr (jshintOptions r)))"

definition projectOptions ::
  "host \<Rightarrow> options_resolver \<Rightarrow> string \<Rightarrow> string list \<Rightarrow> (string list \<times> (error + json option)) option" where
  "projectOptions h r fsPath shown =
     Option.bind (locateFile h fsPath JSHINTRC)
       (\<lambda>configFile.
          if truthyPath configFile then
            map_option (\<lambda>(shown', v). (shown @ shown', map_sum id Some v))
              (readJSHintFile h (the configFile) None)
          else homeOptions h r shown)"

definition readOptions ::
  "host \<Rightarrow> options_resolver \<Rightarrow> string \<Rightarrow> (string list \<times> (error + json option)) option" where
  "readOptions h r fsPath =
     (if truthyPath (configPath r) \<and> existsSync h (the (configPath r)) then
        (case readJsonFile h (the (configPath r)) None of
           (shown, v) \<Rightarrow> Some (shown, Inr (Some v)))
      else if legacyConfig (jshintOptions r) \<noteq> None
              \<and> existsSync h (the (legacyConfig (jshintOptions r))) then
        (case readJsonFile h (the (legacyConfig (jshintOptions r))) None of
           (shown, v) \<Rightarrow> Some (shown, Inr (Some v)))
      else if fsPath \<noteq> [] then
        Option.bind (locateFile h fsPath ''package.json'')
          (\<lambda>packageFile.
             if truthyPath packageFile then
               (case readJsonFile h (the packageFile) None of
                  (shown, content) \<Rightarrow>
                    if content = JNull then Some (shown, Inl TypeError)
                    else if truthyU (field content ''jshintConfig'') then
                      Some (shown, Inr (field content ''jshintConfig''))
                    else projectOptions h r fsPath shown)
             else projectOptions h r fsPath [])
      else homeOptions h r [])"

text \<open>
  \<^verbatim>\<open>getOptions\<close> returns the messages shown, the result or the exception, and the resolver
  with its cache. A cached value counts only when it is truthy (\<^verbatim>\<open>if (!result)\<close>).
\<close>

definition getOptions ::
  "host \<Rightarrow> options_resolver \<Rightarrow> string
     \<Rightarrow> (string list \<times> (error + json option) \<times> options_resolver) option" where
  "getOptions h r fsPath =
     (let result = optionsCache r fsPath in
      if \<not> truthyU result then
        Option.bind (readOptions h r fsPath)
          (\<lambda>(shown, res).
             case res of
               Inl e \<Rightarrow> Some (shown, Inl e, r)
             | Inr v \<Rightarrow> Some (shown, Inr v, r\<lparr>optionsCache := (optionsCache r)(fsPath := v)\<rparr>))
      else Some ([], Inr result, r))"

section \<open>FileMatcher\<close>

text \<open>
  The exclude cache is a JavaScript object used as a dictionary from paths to booleans,
  asked with \<^verbatim>\<open>hasOwnProperty\<close>: a map. \<^verbatim>\<open>defaultExcludePatterns\<close> is \<^verbatim>\<open>null\<close> until the
  first \<^verbatim>\<open>configure\<close>; \<^verbatim>\<open>_.some(null, f)\<close> is \<^verbatim>\<open>false\<close> as it is for the empty array, so
  \<^verbatim>\<open>null\<close> is the empty list here. A path argument that may be \<^verbatim>\<open>null\<close> or \<^verbatim>\<open>undefined\<close>
  is a \<open>string option\<close>.
\<close>

record file_matcher =
  fmConfigPath :: "string option"
  defaultExcludePatterns :: "string list"
  excludeCache :: "string \<rightharpoonup> bool"

definition JSHINTIGNORE :: string where
  "JSHINTIGNORE = ''.jshintignore''"




definition FileMatcher_clear :: "(string \<times> json) list option \<Rightarrow> file_matcher \<Rightarrow> file_matcher" where
  "FileMatcher_clear exclude m = m\<lparr>excludeCache := Map.empty\<rparr>"

text \<open>
  \<^verbatim>\<open>relativeTo\<close>: \<^verbatim>\<open>0 === fsPath.indexOf(folder)\<close> holds exactly when \<^verbatim>\<open>folder\<close> is a
  prefix of \<^verbatim>\<open>fsPath\<close>; \<^verbatim>\<open>substr(n)\<close> drops the first \<open>n\<close> characters.
\<close>

definition relativeTo :: "string \<Rightarrow> string option \<Rightarrow> string" where
  "relativeTo fsPath folder =
     (case folder of
        None \<Rightarrow> fsPath
      | Some f \<Rightarrow>
          if f \<noteq> [] \<and> prefix f fsPath then
            (let cuttingPoint = length f;
                 cuttingPoint' =
                   (if cuttingPoint < length fsPath \<and> fsPath ! cuttingPoint = CHR ''/''
                    then cuttingPoint + 1 else cuttingPoint)
             in drop cuttingPoint' fsPath)
          else fsPath)"

text \<open>\<^verbatim>\<open>lastIndexOf\<close>: the greatest index holding the character, \<open>None\<close> for \<open>-1\<close>.\<close>

fun lastIndexOf :: "string \<Rightarrow> char \<Rightarrow> nat option" where
  "lastIndexOf [] c = None"
| "lastIndexOf (x # xs) c =
     (case lastIndexOf xs c of
        Some i \<Rightarrow> Some (Suc i)
      | None \<Rightarrow> if x = c then Some 0 else None)"

definition folderOf :: "string \<Rightarrow> string" where
  "folderOf fsPath =
     (case lastIndexOf fsPath (CHR ''/'') of Some index \<Rightarrow> take index fsPath | None \<Rightarrow> fsPath)"

definition match :: "host \<Rightarrow> string list \<Rightarrow> string \<Rightarrow> string option \<Rightarrow> bool" where
  "match h excludePatters path root =
     (let relativePath = relativeTo path root in
      list_ex (\<lambda>pattern. minimatch h relativePath pattern) excludePatters)"

text \<open>
  \<^verbatim>\<open>excludes\<close> returns the decision and the matcher with its cache updated; \<open>None\<close> only
  when the upward search for an ignore file does not end.
\<close>

definition excludes ::
  "host \<Rightarrow> file_matcher \<Rightarrow> string \<Rightarrow> string option \<Rightarrow> (bool \<times> file_matcher) option" where
  "excludes h m fsPath root =
     (if fsPath \<noteq> [] then
        (case excludeCache m fsPath of
           Some cached \<Rightarrow> Some (cached, m)
         | None \<Rightarrow>
             Option.bind
               (if truthyPath (fmConfigPath m) \<and> existsSync h (the (fmConfigPath m)) then
                  Some (match h (processIgnoreFile h (the (fmConfigPath m))) fsPath root)
                else
                  Option.bind (locateFile h fsPath JSHINTIGNORE)
                    (\<lambda>ignoreFile.
                       if truthyPath ignoreFile then
                         Some (match h (processIgnoreFile h (the ignoreFile)) fsPath
                                 (Some (folderOf (the ignoreFile))))
                       else Some (match h (defaultExcludePatterns m) fsPath root)))
               (\<lambda>shouldBeExcluded.
                  Some (shouldBeExcluded,
                        m\<lparr>excludeCache := (excludeCache m)(fsPath \<mapsto> shouldBeExcluded)\<rparr>)))
      else Some (True, m))"

section \<open>Predicates of the statements\<close>

text \<open>
  What the properties below speak about. \<open>parsesTo h file v\<close>: the file can be read and
  its text, comments stripped, parses to \<open>v\<close>. \<open>returned\<close>: the messages and the result of
  a call of \<^verbatim>\<open>getOptions\<close>, without the resolver. \<open>hasExtends\<close>: the value is an object
  with a key \<^verbatim>\<open>extends\<close>. \<open>flatSource\<close>: the pinned file that \<^verbatim>\<open>readOptions\<close> reads flat,
  the explicit path before the legacy one, or none. \<open>noPackageConfig\<close>: the search for
  \<^verbatim>\<open>package.json\<close> ends and yields no truthy \<^verbatim>\<open>jshintConfig\<close> (and no exception).
  \<open>ownExtends\<close>: the value a file itself holds under \<^verbatim>\<open>extends\<close>.
\<close>

definition isArray :: "json option \<Rightarrow> bool" where
  "isArray v = (case v of Some (JArr xs) \<Rightarrow> True | _ \<Rightarrow> False)"

definition isPlainObject :: "json option \<Rightarrow> bool" where
  "isPlainObject v = (case v of Some (JObj kvs) \<Rightarrow> True | _ \<Rightarrow> False)"

definition parsesTo :: "host \<Rightarrow> string \<Rightarrow> json \<Rightarrow> bool" where
  "parsesTo h file v =
     (Option.bind (readFileSync h file) (\<lambda>content. parseJSON h (stripComments content)) = Some v)"

definition returned ::
  "(string list \<times> (error + json option) \<times> options_resolver) option
     \<Rightarrow> (string list \<times> (error + json option)) option" where
  "returned x = map_option (\<lambda>(shown, res, r). (shown, res)) x"

definition hasExtends :: "json option \<Rightarrow> bool" where
  "hasExtends v = (case v of None \<Rightarrow> False | Some w \<Rightarrow> field w ''extends'' \<noteq> None)"

definition flatSource :: "host \<Rightarrow> options_resolver \<Rightarrow> string option" where
  "flatSource h r =
     (if truthyPath (configPath r) \<and> existsSync h (the (configPath r)) then configPath r
      else if legacyConfig (jshintOptions r) \<noteq> None
              \<and> existsSync h (the (legacyConfig (jshintOptions r)))
        then legacyConfig (jshintOptions r)
      else None)"

definition noPackageConfig :: "host \<Rightarrow> string \<Rightarrow> bool" where
  "noPackageConfig h fsPath =
     (case locateFile h fsPath ''package.json'' of
        None \<Rightarrow> False
      | Some packageFile \<Rightarrow>
          if truthyPath packageFile then
            snd (readJsonFile h (the packageFile) None) \<noteq> JNull \<and>
            \<not> truthyU (field (snd (readJsonFile h (the packageFile) None)) ''jshintConfig'')
          else True)"

definition ownExtends :: "host \<Rightarrow> string \<Rightarrow> json option" where
  "ownExtends h file = field (snd (readJsonFile h file None)) ''extends''"

text \<open>
  \<open>ordinary\<close>: no object in the value, at any depth, holds under the key \<^verbatim>\<open>length\<close> a
  number that \<^verbatim>\<open>isLength\<close> accepts. No part of an ordinary value is array-like for lodash.
\<close>

fun ordinary :: "json \<Rightarrow> bool" where
  "ordinary (JArr xs) = list_all ordinary xs"
| "ordinary (JObj kvs) =
     list_all (\<lambda>(k, v). \<not> (k = ''length'' \<and> isLength v) \<and> ordinary v) kvs"
| "ordinary v = True"

definition ordinaryU :: "json option \<Rightarrow> bool" where
  "ordinaryU v = (case v of None \<Rightarrow> True | Some j \<Rightarrow> ordinary j)"

text \<open>
  \<open>chainEnds h file extendedFrom\<close>: inheritance processing of the file comes to an end
  over files of the expected shape. Each file on the way either cannot be read or parsed
  (\<^verbatim>\<open>readJsonFile\<close> then gives the empty object) or parses to an ordinary object; its
  \<^verbatim>\<open>extends\<close>, when truthy, is a string; and the chain of parents stops, at a file without
  a truthy \<^verbatim>\<open>extends\<close> or at a parent that does not exist. \<open>homeEnds\<close>: so does the home
  directory's \<^verbatim>\<open>.jshintrc\<close>, when there is one. \<open>searchEnds\<close>: both upward searches of
  \<^verbatim>\<open>readOptions\<close> end, a \<^verbatim>\<open>package.json\<close> that is found does not hold \<^verbatim>\<open>null\<close>, and the
  \<^verbatim>\<open>.jshintrc\<close> that is found, or else the home directory's, is such a chain.
\<close>

inductive chainEnds :: "host \<Rightarrow> string \<Rightarrow> string option \<Rightarrow> bool" for h :: host where
  leaf:
    "snd (readJsonFile h file extendedFrom) = JObj kvs \<Longrightarrow> ordinary (JObj kvs) \<Longrightarrow>
     \<not> truthyU (map_of kvs ''extends'') \<Longrightarrow>
     chainEnds h file extendedFrom"
| missing:
    "snd (readJsonFile h file extendedFrom) = JObj kvs \<Longrightarrow> ordinary (JObj kvs) \<Longrightarrow>
     map_of kvs ''extends'' = Some (JStr ext) \<Longrightarrow> ext \<noteq> [] \<Longrightarrow>
     \<not> existsSync h (resolvePath h (dirname h file) ext) \<Longrightarrow>
     chainEnds h file extendedFrom"
| parent:
    "snd (readJsonFile h file extendedFrom) = JObj kvs \<Longrightarrow> ordinary (JObj kvs) \<Longrightarrow>
     map_of kvs ''extends'' = Some (JStr ext) \<Longrightarrow> ext \<noteq> [] \<Longrightarrow>
     existsSync h (resolvePath h (dirname h file) ext) \<Longrightarrow>
     chainEnds h (resolvePath h (dirname h file) ext) (Some file) \<Longrightarrow>
     chainEnds h file extendedFrom"

definition homeEnds :: "host \<Rightarrow> bool" where
  "homeEnds h =
     (if truthyPath (userHome h) \<and> existsSync h (joinPath h (the (userHome h)) JSHINTRC)
      then chainEnds h (joinPath h (the (userHome h)) JSHINTRC) None
      else True)"

definition searchEnds :: "host \<Rightarrow> string \<Rightarrow> bool" where
  "searchEnds h fsPath =
     (case locateFile h fsPath ''package.json'' of
        None \<Rightarrow> False
      | Some packageFile \<Rightarrow>
          (if truthyPath packageFile
           then snd (readJsonFile h (the packageFile) None) \<noteq> JNull else True) \<and>
          (case locateFile h fsPath JSHINTRC of
             None \<Rightarrow> False
           | Some configFile \<Rightarrow>
               if truthyPath configFile then chainEnds h (the configFile) None
               else homeEnds h))"

section \<open>Merging: lemmas\<close>

declare mergeValue.simps [simp del]

lemma ordinary_map_of:
  "ordinary (JObj kvs) \<Longrightarrow> map_of kvs k = Some v \<Longrightarrow> ordinary v \<and> \<not> (k = ''length'' \<and> isLength v)"
  by (auto simp: list_all_iff dest: map_of_SomeD)

lemma ordinary_copyArray: "ordinaryU objValue \<Longrightarrow> copyArray objValue = Inr []"
proof (cases objValue)
  case None
  then show ?thesis by (simp add: copyArray_def)
next
  case (Some j)
  assume o: "ordinaryU objValue"
  show ?thesis
  proof (cases j)
    case (JObj obj)
    show ?thesis
    proof (cases "map_of obj ''length''")
      case None
      with Some JObj show ?thesis by (simp add: copyArray_def)
    next
      case (Some v)
      with o \<open>objValue = Some j\<close> JObj ordinary_map_of[of obj "''length''" v]
      have "\<not> isLength v" by (simp add: ordinaryU_def)
      with Some \<open>objValue = Some j\<close> JObj show ?thesis
        by (cases v) (auto simp: copyArray_def)
    qed
  qed (use Some in \<open>simp_all add: copyArray_def\<close>)
qed

lemma list_all_update:
  "list_all P al \<Longrightarrow> P (k, v) \<Longrightarrow> list_all P (AList.update k v al)"
  by (induction al) auto

lemma ordinary_update:
  "ordinary (JObj obj) \<Longrightarrow> ordinary v \<Longrightarrow> \<not> (k = ''length'' \<and> isLength v)
     \<Longrightarrow> ordinary (JObj (AList.update k v obj))"
  by (simp add: list_all_update)

lemma mergeValue_array: "mergeValue (Some (JArr xs)) v = Inr (JArr (xs @ concatArg v))"
  by (simp add: mergeValue.simps customizer_def)

lemma customizer_None:
  "customizer objValue srcValue = None \<longleftrightarrow> (\<forall>xs. objValue \<noteq> Some (JArr xs))"
  by (auto simp: customizer_def split: option.splits json.splits)

lemma mergeValue_not_length:
  assumes "mergeValue objValue srcValue = Inr newValue" and "\<not> isLength srcValue"
  shows "\<not> isLength newValue"
proof (cases "customizer objValue srcValue")
  case (Some a)
  with assms show ?thesis
    by (auto simp: mergeValue.simps customizer_def split: option.splits json.splits)
next
  case None
  with assms show ?thesis
    by (cases srcValue) (auto simp: mergeValue.simps split: sum.splits option.splits)
qed

lemma those_map_Some: "those (map Some vs) = Some vs"
  by (induction vs) simp_all

lemma ordinary_concatArg: "ordinary v \<Longrightarrow> list_all ordinary (concatArg v)"
  by (cases v) simp_all

lemma merge_ordinary:
  shows "ordinaryU objValue \<Longrightarrow> ordinary srcValue \<Longrightarrow>
           \<exists>newValue. mergeValue objValue srcValue = Inr newValue \<and> ordinary newValue"
    and "ordinary (JObj object) \<Longrightarrow> ordinary (JObj source) \<Longrightarrow>
           \<exists>merged. mergeFields object source = Inr merged \<and> ordinary (JObj merged)"
    and "newItems = [] \<Longrightarrow> list_all ordinary items \<Longrightarrow>
           \<exists>vs. mergeItems newItems items = Inr (map Some vs) \<and> list_all ordinary vs"
proof (induction objValue srcValue and object source and newItems items
    rule: mergeValue_mergeFields_mergeItems.induct)
  case (1 objValue srcValue)
  show ?case
  proof (cases "customizer objValue srcValue")
    case (Some nv)
    then obtain xs where ov: "objValue = Some (JArr xs)" and nv: "nv = JArr (xs @ concatArg srcValue)"
      by (auto simp: customizer_def split: option.splits json.splits)
    from ov "1.prems" have "list_all ordinary xs" by (simp add: ordinaryU_def)
    with ordinary_concatArg[OF "1.prems"(2)] nv have "ordinary nv" by simp
    with ov nv show ?thesis by (simp add: mergeValue_array)
  next
    case None
    note cn = this
    show ?thesis
    proof (cases srcValue)
      case (JArr src)
      from "1.prems"(2) JArr have s: "list_all ordinary src" by simp
      from "1.IH"(1)[OF cn JArr ordinary_copyArray[OF "1.prems"(1)] refl s]
      obtain vs where "mergeItems [] src = Inr (map Some vs)" "list_all ordinary vs" by blast
      with cn JArr ordinary_copyArray[OF "1.prems"(1)] show ?thesis
        by (simp add: mergeValue.simps those_map_Some)
    next
      case (JObj src)
      let ?obj = "case objValue of None \<Rightarrow> [] | Some (JObj obj) \<Rightarrow> obj | Some _ \<Rightarrow> []"
      from "1.prems"(1) have "ordinary (JObj ?obj)"
        by (auto simp: ordinaryU_def split: option.splits json.splits)
      from "1.IH"(2)[OF cn JObj this] "1.prems"(2) JObj
      obtain merged where "mergeFields ?obj src = Inr merged" "ordinary (JObj merged)" by blast
      with cn JObj show ?thesis by (simp add: mergeValue.simps)
    qed (use cn in \<open>simp_all add: mergeValue.simps\<close>)
  qed
next
  case (2 object)
  then show ?case by simp
next
  case (3 object key srcValue source)
  from "3.prems"(2) have src: "ordinary (JObj source)" and sv: "ordinary srcValue"
    and nl: "\<not> (key = ''length'' \<and> isLength srcValue)"
    by simp_all
  show ?case
  proof (cases "key = ''__proto__''")
    case True
    show ?thesis
    proof (cases "isObject srcValue")
      case True
      from "3.IH"(1)[OF \<open>key = ''__proto__''\<close> True "3.prems"(1) src] \<open>key = ''__proto__''\<close> True
      show ?thesis by simp
    next
      case False
      from ordinary_update[OF "3.prems"(1) sv nl]
      have "ordinary (JObj (AList.update key srcValue object))" .
      from "3.IH"(2)[OF \<open>key = ''__proto__''\<close> False this src] \<open>key = ''__proto__''\<close> False
      show ?thesis by simp
    qed
  next
    case False
    have "ordinaryU (map_of object key)"
      using ordinary_map_of[OF "3.prems"(1)]
      by (cases "map_of object key") (simp_all add: ordinaryU_def)
    from "3.IH"(3)[OF False this sv]
    obtain nv where mv: "mergeValue (map_of object key) srcValue = Inr nv" and onv: "ordinary nv"
      by blast
    from mergeValue_not_length[OF mv] nl have "\<not> (key = ''length'' \<and> isLength nv)" by blast
    from ordinary_update[OF "3.prems"(1) onv this]
    have "ordinary (JObj (AList.update key nv object))" .
    from "3.IH"(4)[OF False mv this src] False mv show ?thesis by simp
  qed
next
  case (4 newValue)
  then show ?case by simp
next
  case (5 newValue srcValue source)
  from "5.prems" have nv: "newValue = []" and sv: "ordinary srcValue"
    and rest: "list_all ordinary source"
    by simp_all
  from "5.IH"(1) nv sv obtain item where mv: "mergeValue None srcValue = Inr item"
    and oi: "ordinary item"
    by (auto simp: ordinaryU_def)
  from "5.IH"(2)[of item] nv mv rest obtain vs where
    "mergeItems [] source = Inr (map Some vs)" "list_all ordinary vs"
    by auto
  with nv mv oi have "mergeItems newValue (srcValue # source) = Inr (map Some (item # vs))"
    "list_all ordinary (item # vs)"
    by simp_all
  then show ?case by blast
qed


lemma mergeValue_scalar:
  "\<not> isObject srcValue \<Longrightarrow> \<not> isArray objValue \<Longrightarrow> mergeValue objValue srcValue = Inr srcValue"
  by (cases srcValue)
     (auto simp: mergeValue.simps customizer_def isArray_def split: option.splits json.splits)

lemma mergeValue_objects:
  "mergeValue (Some (JObj obj)) (JObj src) =
     (case mergeFields obj src of Inl e \<Rightarrow> Inl e | Inr merged \<Rightarrow> Inr (JObj merged))"
  by (simp add: mergeValue.simps customizer_def)

lemma mergeValue_fresh_object:
  "\<not> isArray objValue \<Longrightarrow> \<not> isPlainObject objValue \<Longrightarrow>
   mergeValue objValue (JObj src) =
     (case mergeFields [] src of Inl e \<Rightarrow> Inl e | Inr merged \<Rightarrow> Inr (JObj merged))"
  by (auto simp: mergeValue.simps customizer_def isArray_def isPlainObject_def
      split: option.splits json.splits)

lemma mergeValue_not_array:
  "mergeValue objValue srcValue = Inr newValue \<Longrightarrow> \<not> isArray objValue \<Longrightarrow>
   \<not> isArray (Some srcValue) \<Longrightarrow> \<not> isArray (Some newValue)"
  by (cases srcValue)
     (auto simp: mergeValue.simps customizer_def isArray_def
      split: option.splits json.splits sum.splits)

lemma map_of_mergeFields:
  "distinct (map fst source) \<Longrightarrow> mergeFields object source = Inr merged \<Longrightarrow>
   (case map_of source k of
      None \<Rightarrow> map_of merged k = map_of object k
    | Some v \<Rightarrow>
        if k = ''__proto__'' then map_of merged k = (if isObject v then map_of object k else Some v)
        else (\<exists>newValue. mergeValue (map_of object k) v = Inr newValue
                \<and> map_of merged k = Some newValue))"
proof (induction source arbitrary: object)
  case Nil
  then show ?case by simp
next
  case (Cons kv source)
  obtain key srcValue where kv: "kv = (key, srcValue)" by (cases kv)
  from Cons.prems kv have d: "distinct (map fst source)" and notin: "key \<notin> fst ` set source"
    by auto
  from notin have none: "map_of source key = None"
    by (simp add: map_of_eq_None_iff)
  show ?case
  proof (cases "key = ''__proto__''")
    case True
    note proto = this
    show ?thesis
    proof (cases "isObject srcValue")
      case True
      with Cons.prems(2) kv proto have m: "mergeFields object source = Inr merged" by simp
      from Cons.IH[OF d m] none kv proto True show ?thesis
        by (cases "k = key") (auto split: option.splits if_splits)
    next
      case False
      with Cons.prems(2) kv proto
      have m: "mergeFields (AList.update key srcValue object) source = Inr merged" by simp
      from Cons.IH[OF d m] none kv proto False show ?thesis
        by (cases "k = key") (auto simp: update_conv' split: option.splits if_splits)
    qed
  next
    case False
    with Cons.prems(2) kv obtain newValue where
      mv: "mergeValue (map_of object key) srcValue = Inr newValue"
      and m: "mergeFields (AList.update key newValue object) source = Inr merged"
      by (auto split: sum.splits)
    from Cons.IH[OF d m] none kv False mv show ?thesis
      by (cases "k = key") (auto simp: update_conv' split: option.splits if_splits)
  qed
qed

lemma map_of_mergeFields_absent:
  "distinct (map fst source) \<Longrightarrow> mergeFields object source = Inr merged \<Longrightarrow>
   map_of source k = None \<Longrightarrow> map_of merged k = map_of object k"
  using map_of_mergeFields[of source object merged k] by simp

lemma map_of_mergeFields_present:
  "distinct (map fst source) \<Longrightarrow> mergeFields object source = Inr merged \<Longrightarrow>
   map_of source k = Some v \<Longrightarrow> k \<noteq> ''__proto__'' \<Longrightarrow>
   \<exists>newValue. mergeValue (map_of object k) v = Inr newValue \<and> map_of merged k = Some newValue"
  using map_of_mergeFields[of source object merged k] by simp

lemma map_of_mergeFields_proto:
  "distinct (map fst source) \<Longrightarrow> mergeFields object source = Inr merged \<Longrightarrow>
   map_of source ''__proto__'' = Some v \<Longrightarrow>
   map_of merged ''__proto__'' = (if isObject v then map_of object ''__proto__'' else Some v)"
  using map_of_mergeFields[of source object merged "''__proto__''"] by simp

lemma ordinary_delete: "ordinary (JObj kvs) \<Longrightarrow> ordinary (JObj (AList.delete k kvs))"
  by (induction kvs) auto

section \<open>OptionsResolver: lemmas\<close>

lemma readJsonFile_parsesTo: "parsesTo h file v \<Longrightarrow> readJsonFile h file extendedFrom = ([], v)"
  by (simp add: parsesTo_def readJsonFile_def)

lemma readJsonFile_failed:
  "Option.bind (readFileSync h file) (\<lambda>content. parseJSON h (stripComments content)) = None \<Longrightarrow>
   readJsonFile h file extendedFrom =
     ([cantLoad (if truthyPath extendedFrom then file @ '' extended from '' @ the extendedFrom
                 else file)], JObj [])"
  by (simp add: readJsonFile_def)

lemma readJSHintFile_plain:
  assumes "readJsonFile h file extendedFrom = (shown, content)"
    and "content \<noteq> JNull" and "\<not> truthyU (field content ''extends'')"
  shows "readJSHintFile h file extendedFrom = Some (shown, Inr content)"
  using assms by (subst readJSHintFile.simps) simp

lemma readJSHintFile_null:
  assumes "readJsonFile h file extendedFrom = (shown, JNull)"
  shows "readJSHintFile h file extendedFrom = Some (shown, Inl TypeError)"
  using assms by (subst readJSHintFile.simps) simp

lemma readJSHintFile_missing:
  assumes "readJsonFile h file extendedFrom = (shown, JObj kvs)"
    and "map_of kvs ''extends'' = Some (JStr ext)" and "ext \<noteq> []"
    and "\<not> existsSync h (resolvePath h (dirname h file) ext)"
  shows "readJSHintFile h file extendedFrom =
           Some (shown @ [cantFind (resolvePath h (dirname h file) ext) file],
                 Inr (JObj (AList.delete ''extends'' kvs)))"
  using assms by (subst readJSHintFile.simps) (simp add: truthyU_def)

lemma readJSHintFile_extends:
  assumes "readJsonFile h file extendedFrom = (shown, JObj kvs)"
    and "map_of kvs ''extends'' = Some (JStr ext)" and "ext \<noteq> []"
    and "existsSync h (resolvePath h (dirname h file) ext)"
    and "readJSHintFile h (resolvePath h (dirname h file) ext) (Some file) = Some (shown', Inr (JObj base))"
  shows "readJSHintFile h file extendedFrom =
           Some (shown @ shown',
                 case mergeFields base kvs of
                   Inl e \<Rightarrow> Inl e
                 | Inr merged \<Rightarrow> Inr (JObj (AList.delete ''extends'' merged)))"
  using assms
  by (subst readJSHintFile.simps) (simp add: truthyU_def mergeWith_def split: sum.splits)

lemma readJSHintFile_extends_raised:
  assumes "readJsonFile h file extendedFrom = (shown, JObj kvs)"
    and "map_of kvs ''extends'' = Some (JStr ext)" and "ext \<noteq> []"
    and "existsSync h (resolvePath h (dirname h file) ext)"
    and "readJSHintFile h (resolvePath h (dirname h file) ext) (Some file) = Some (shown', Inl e)"
  shows "readJSHintFile h file extendedFrom = Some (shown @ shown', Inl e)"
  using assms by (subst readJSHintFile.simps) (simp add: truthyU_def)

lemma field_deleteField: "field (deleteField k v) k = None"
  by (cases v) (simp_all add: delete_conv')

lemma field_deleteField_other: "k' \<noteq> k \<Longrightarrow> field (deleteField k v) k' = field v k'"
  by (cases v) (simp_all add: delete_conv')

lemma readJSHintFile_result:
  assumes "readJSHintFile h file extendedFrom = Some (shown, Inr v)"
  shows "field v ''extends'' = None \<or>
         (v = snd (readJsonFile h file extendedFrom) \<and> \<not> truthyU (field v ''extends''))"
proof -
  obtain shown0 content where rj: "readJsonFile h file extendedFrom = (shown0, content)"
    by (cases "readJsonFile h file extendedFrom")
  show ?thesis
  proof (cases "content \<noteq> JNull \<and> truthyU (field content ''extends'')")
    case False
    with assms rj show ?thesis
      by (subst (asm) readJSHintFile.simps) (auto split: if_splits)
  next
    case True
    then have t: "content \<noteq> JNull" "truthyU (field content ''extends'')" by simp_all
    show ?thesis
    proof (cases "the (field content ''extends'')")
      case (JStr ext)
      show ?thesis
      proof (cases "existsSync h (resolvePath h (dirname h file) ext)")
        case True
        with assms rj t JStr obtain b where
          "map_sum id (deleteField ''extends'') (mergeWith b (fieldsOf content)) = Inr v"
          by (subst (asm) readJSHintFile.simps)
             (auto simp: Let_def split: Option.bind_splits sum.splits prod.splits)
        then obtain w where "v = deleteField ''extends'' w"
          by (cases "mergeWith b (fieldsOf content)") auto
        then show ?thesis by (simp add: field_deleteField)
      next
        case False
        with assms rj t JStr have "v = deleteField ''extends'' content"
          by (subst (asm) readJSHintFile.simps) (auto simp: Let_def)
        then show ?thesis by (simp add: field_deleteField)
      qed
    qed (use assms rj t in \<open>subst (asm) readJSHintFile.simps, simp\<close>)+
  qed
qed

lemma readJSHintFile_chain:
  assumes A: "parsesTo h fa (JObj a)" and B: "parsesTo h fb (JObj b)" and C: "parsesTo h fc (JObj c)"
    and ea: "map_of a ''extends'' = Some (JStr ea)" "ea \<noteq> []"
            "resolvePath h (dirname h fa) ea = fb" "existsSync h fb"
    and eb: "map_of b ''extends'' = Some (JStr eb)" "eb \<noteq> []"
            "resolvePath h (dirname h fb) eb = fc" "existsSync h fc"
    and ec: "map_of c ''extends'' = None"
  shows "readJSHintFile h fa extendedFrom =
           Some ([],
                 case mergeFields c b of
                   Inl e \<Rightarrow> Inl e
                 | Inr p \<Rightarrow>
                     (case mergeFields (AList.delete ''extends'' p) a of
                        Inl e \<Rightarrow> Inl e
                      | Inr q \<Rightarrow> Inr (JObj (AList.delete ''extends'' q))))"
proof -
  have rc: "readJSHintFile h fc (Some fb) = Some ([], Inr (JObj c))"
    using ec by (intro readJSHintFile_plain readJsonFile_parsesTo[OF C]) (simp_all add: truthyU_def)
  have rb: "readJSHintFile h fb (Some fa) =
              Some ([], case mergeFields c b of
                          Inl e \<Rightarrow> Inl e
                        | Inr p \<Rightarrow> Inr (JObj (AList.delete ''extends'' p)))"
    using readJSHintFile_extends[where extendedFrom="Some fa" and shown'="[]" and base=c,
        OF readJsonFile_parsesTo[OF B] eb(1,2)] eb(3,4) rc
    by simp
  show ?thesis
  proof (cases "mergeFields c b")
    case (Inl e)
    with rb have "readJSHintFile h fb (Some fa) = Some ([], Inl e)" by simp
    with readJSHintFile_extends_raised[where extendedFrom=extendedFrom and shown'="[]" and e=e,
        OF readJsonFile_parsesTo[OF A] ea(1,2)] ea(3,4) Inl
    show ?thesis by simp
  next
    case (Inr p)
    with rb have "readJSHintFile h fb (Some fa) = Some ([], Inr (JObj (AList.delete ''extends'' p)))"
      by simp
    with readJSHintFile_extends[where extendedFrom=extendedFrom and shown'="[]"
        and base="AList.delete ''extends'' p",
        OF readJsonFile_parsesTo[OF A] ea(1,2)] ea(3,4) Inr
    show ?thesis by simp
  qed
qed

lemma getOptions_miss:
  "\<not> truthyU (optionsCache r fsPath) \<Longrightarrow>
   getOptions h r fsPath =
     Option.bind (readOptions h r fsPath)
       (\<lambda>(shown, res).
          case res of
            Inl e \<Rightarrow> Some (shown, Inl e, r)
          | Inr v \<Rightarrow> Some (shown, Inr v, r\<lparr>optionsCache := (optionsCache r)(fsPath := v)\<rparr>))"
  by (simp add: getOptions_def)

lemma getOptions_hit:
  "truthyU (optionsCache r fsPath) \<Longrightarrow>
   getOptions h r fsPath = Some ([], Inr (optionsCache r fsPath), r)"
  by (simp add: getOptions_def)

lemma returned_getOptions_miss:
  "\<not> truthyU (optionsCache r fsPath) \<Longrightarrow> returned (getOptions h r fsPath) = readOptions h r fsPath"
  by (cases "readOptions h r fsPath")
     (auto simp: getOptions_miss returned_def split: sum.splits)

lemma readOptions_flat:
  "flatSource h r = Some p \<Longrightarrow>
   readOptions h r fsPath =
     Some (fst (readJsonFile h p None), Inr (Some (snd (readJsonFile h p None))))"
  by (auto simp: flatSource_def readOptions_def split: if_splits prod.splits)

lemma readOptions_not_flat:
  assumes "flatSource h r = None" "fsPath \<noteq> []"
  shows "readOptions h r fsPath =
     Option.bind (locateFile h fsPath ''package.json'')
          (\<lambda>packageFile.
             if truthyPath packageFile then
               (case readJsonFile h (the packageFile) None of
                  (shown, content) \<Rightarrow>
                    if content = JNull then Some (shown, Inl TypeError)
                    else if truthyU (field content ''jshintConfig'') then
                      Some (shown, Inr (field content ''jshintConfig''))
                    else projectOptions h r fsPath shown)
             else projectOptions h r fsPath [])"
proof -
  from assms(1) have 1: "(truthyPath (configPath r) \<and> existsSync h (the (configPath r))) = False"
    and 2: "(legacyConfig (jshintOptions r) \<noteq> None
              \<and> existsSync h (the (legacyConfig (jshintOptions r)))) = False"
    by (auto simp: flatSource_def truthyPath_def split: if_splits option.splits)
  show ?thesis
    unfolding readOptions_def 1 2 using assms(2) by simp
qed

lemma readOptions_project:
  assumes "flatSource h r = None" "fsPath \<noteq> []" "noPackageConfig h fsPath"
  shows "\<exists>shown. readOptions h r fsPath = projectOptions h r fsPath shown"
proof -
  from assms(3) obtain packageFile where l: "locateFile h fsPath ''package.json'' = Some packageFile"
    by (auto simp: noPackageConfig_def split: option.splits)
  show ?thesis
  proof (cases "truthyPath packageFile")
    case True
    obtain shownP content where rj: "readJsonFile h (the packageFile) None = (shownP, content)"
      by (cases "readJsonFile h (the packageFile) None")
    with assms(3) l True have c: "content \<noteq> JNull" "\<not> truthyU (field content ''jshintConfig'')"
      by (simp_all add: noPackageConfig_def)
    with l True rj have "readOptions h r fsPath = projectOptions h r fsPath shownP"
      by (simp add: readOptions_not_flat[OF assms(1,2)])
    then show ?thesis by blast
  next
    case False
    with l have "readOptions h r fsPath = projectOptions h r fsPath []"
      by (simp add: readOptions_not_flat[OF assms(1,2)])
    then show ?thesis by blast
  qed
qed

lemma readJSHintFile_no_extends:
  assumes "readJSHintFile h file None = Some (shown, Inr v)"
    and "ownExtends h file = None \<or> truthyU (ownExtends h file)"
  shows "field v ''extends'' = None"
  using readJSHintFile_result[OF assms(1)] assms(2)
  by (auto simp: ownExtends_def)

lemma inherited_no_extends:
  assumes "map_option (\<lambda>(shown', v). (shown0 @ shown', map_sum id Some v)) (readJSHintFile h file None)
             = Some (shown, Inr v)"
    and "ownExtends h file = None \<or> truthyU (ownExtends h file)"
  shows "v \<noteq> None \<and> \<not> hasExtends v"
proof -
  from assms(1) obtain shown' w where r: "readJSHintFile h file None = Some (shown', Inr w)"
    and v: "v = Some w"
    by (cases "readJSHintFile h file None") (auto split: sum.splits simp: map_sum_def)
  from readJSHintFile_no_extends[OF r assms(2)] v show ?thesis
    by (simp add: hasExtends_def)
qed

lemma projectOptions_found:
  "locateFile h fsPath JSHINTRC = Some (Some f) \<Longrightarrow> f \<noteq> [] \<Longrightarrow>
   projectOptions h r fsPath shown =
     map_option (\<lambda>(shown', v). (shown @ shown', map_sum id Some v)) (readJSHintFile h f None)"
  by (simp add: projectOptions_def truthyPath_def)

lemma projectOptions_home:
  "locateFile h fsPath JSHINTRC = Some cf \<Longrightarrow> \<not> truthyPath cf \<Longrightarrow>
   truthyPath (userHome h) \<Longrightarrow> existsSync h (joinPath h (the (userHome h)) JSHINTRC) \<Longrightarrow>
   projectOptions h r fsPath shown =
     map_option (\<lambda>(shown', v). (shown @ shown', map_sum id Some v))
       (readJSHintFile h (joinPath h (the (userHome h)) JSHINTRC) None)"
  by (simp add: projectOptions_def homeOptions_def)

lemma chainEnds_returns_ordinary:
  "chainEnds h file extendedFrom \<Longrightarrow>
   \<exists>shown kvs. readJSHintFile h file extendedFrom = Some (shown, Inr (JObj kvs))
      \<and> ordinary (JObj kvs)"
proof (induction rule: chainEnds.induct)
  case (leaf fl ef kvs)
  obtain shown where "readJsonFile h fl ef = (shown, JObj kvs)"
    using leaf(1) by (cases "readJsonFile h fl ef") simp
  from readJSHintFile_plain[OF this] leaf(2,3) show ?case by simp
next
  case (missing fl ef kvs ext)
  obtain shown where "readJsonFile h fl ef = (shown, JObj kvs)"
    using missing(1) by (cases "readJsonFile h fl ef") simp
  from readJSHintFile_missing[OF this missing(3,4,5)] ordinary_delete[OF missing(2)]
  show ?case by simp
next
  case (parent fl ef kvs ext)
  obtain shown where rj: "readJsonFile h fl ef = (shown, JObj kvs)"
    using parent(1) by (cases "readJsonFile h fl ef") simp
  from parent.IH obtain shown' base where
    rb: "readJSHintFile h (resolvePath h (dirname h fl) ext) (Some fl) = Some (shown', Inr (JObj base))"
    and ob: "ordinary (JObj base)"
    by blast
  from merge_ordinary(2)[OF ob parent(2)] obtain merged where
    m: "mergeFields base kvs = Inr merged" and om: "ordinary (JObj merged)"
    by blast
  from readJSHintFile_extends[OF rj parent(3,4,5) rb] m ordinary_delete[OF om]
  show ?case by simp
qed

lemma chainEnds_returns:
  "chainEnds h file extendedFrom \<Longrightarrow>
   \<exists>shown kvs. readJSHintFile h file extendedFrom = Some (shown, Inr (JObj kvs))"
  using chainEnds_returns_ordinary by blast

lemma homeOptions_returns:
  "homeEnds h \<Longrightarrow> \<exists>shown' v. homeOptions h r shown = Some (shown', Inr v)"
proof (cases "truthyPath (userHome h) \<and> existsSync h (joinPath h (the (userHome h)) JSHINTRC)")
  case True
  assume "homeEnds h"
  with True have "chainEnds h (joinPath h (the (userHome h)) JSHINTRC) None"
    by (simp add: homeEnds_def)
  from chainEnds_returns[OF this] True show ?thesis
    by (auto simp: homeOptions_def)
next
  case False
  then show ?thesis by (auto simp: homeOptions_def)
qed

lemma projectOptions_returns:
  assumes "locateFile h fsPath JSHINTRC = Some configFile"
    and "if truthyPath configFile then chainEnds h (the configFile) None else homeEnds h"
  shows "\<exists>shown' v. projectOptions h r fsPath shown = Some (shown', Inr v)"
proof (cases "truthyPath configFile")
  case True
  with assms(2) have "chainEnds h (the configFile) None" by simp
  from chainEnds_returns[OF this] assms(1) True show ?thesis
    by (auto simp: projectOptions_def)
next
  case False
  with assms(2) have "homeEnds h" by simp
  from homeOptions_returns[OF this, of r shown] assms(1) False show ?thesis
    by (simp add: projectOptions_def)
qed

lemma readOptions_no_path:
  assumes "flatSource h r = None"
  shows "readOptions h r [] = homeOptions h r []"
proof -
  from assms have 1: "(truthyPath (configPath r) \<and> existsSync h (the (configPath r))) = False"
    and 2: "(legacyConfig (jshintOptions r) \<noteq> None
              \<and> existsSync h (the (legacyConfig (jshintOptions r)))) = False"
    by (auto simp: flatSource_def truthyPath_def split: if_splits option.splits)
  show ?thesis
    unfolding readOptions_def 1 2 by simp
qed

lemma readOptions_returns:
  assumes "flatSource h r \<noteq> None \<or> (if fsPath \<noteq> [] then searchEnds h fsPath else homeEnds h)"
  shows "\<exists>shown v. readOptions h r fsPath = Some (shown, Inr v)"
proof (cases "flatSource h r")
  case (Some p)
  from readOptions_flat[OF this] show ?thesis by blast
next
  case None
  note flat = this
  show ?thesis
  proof (cases "fsPath = []")
    case True
    with assms flat have "homeEnds h" by simp
    from homeOptions_returns[OF this, of r "[]"] True show ?thesis
      by (simp add: readOptions_no_path[OF flat])
  next
    case False
    with assms flat have s: "searchEnds h fsPath" by simp
    then obtain packageFile configFile where
      l: "locateFile h fsPath ''package.json'' = Some packageFile"
      and n: "truthyPath packageFile \<Longrightarrow> snd (readJsonFile h (the packageFile) None) \<noteq> JNull"
      and c: "locateFile h fsPath JSHINTRC = Some configFile"
      and e: "if truthyPath configFile then chainEnds h (the configFile) None else homeEnds h"
      by (auto simp: searchEnds_def split: option.splits if_splits)
    note po = projectOptions_returns[OF c e, of r]
    show ?thesis
    proof (cases "truthyPath packageFile")
      case True
      obtain shownP content where rj: "readJsonFile h (the packageFile) None = (shownP, content)"
        by (cases "readJsonFile h (the packageFile) None")
      with n[OF True] have "content \<noteq> JNull" by simp
      with l True rj po[of shownP] show ?thesis
        by (auto simp: readOptions_not_flat[OF flat False])
    next
      case False
      with l po[of "[]"] show ?thesis
        by (simp add: readOptions_not_flat[OF flat \<open>fsPath \<noteq> []\<close>])
    qed
  qed
qed

lemma getOptions_returns_if:
  assumes "\<exists>shown v. readOptions h r fsPath = Some (shown, Inr v)"
  shows "\<exists>shown v r'. getOptions h r fsPath = Some (shown, Inr v, r')"
proof (cases "truthyU (optionsCache r fsPath)")
  case True
  then show ?thesis by (simp add: getOptions_hit)
next
  case False
  with assms show ?thesis by (auto simp: getOptions_miss)
qed

section \<open>FileMatcher: lemmas\<close>







section \<open>Hosts of the worked examples\<close>

text \<open>
  The examples run on small hosts. Their file system is a table of files with their
  texts and a table of ignore files with the patterns \<^verbatim>\<open>parse-gitignore\<close> reads from them;
  \<^verbatim>\<open>JSON.parse\<close> is a table that lists, for each text of the example, the value
  \<^verbatim>\<open>JSON.parse\<close> gives for it. The paths are absolute POSIX paths without dots and
  without trailing separators; on these \<open>parentDir\<close> is \<^verbatim>\<open>path.dirname\<close> and \<open>joined\<close> is
  \<^verbatim>\<open>path.join\<close> and \<^verbatim>\<open>path.resolve\<close> with a relative file name.
\<close>

text \<open>
  Modelled from the spec: \<^verbatim>\<open>minimatch\<close>, the glob matcher, is a package the source imports.
  The spec asks for \<^verbatim>\<open>*\<close> within a segment, \<^verbatim>\<open>**\<close> across segments and literal separators:
  \<open>glob path pattern\<close> splits both at the separators, lets \<^verbatim>\<open>**\<close> stand for any number of
  segments and \<^verbatim>\<open>*\<close> for any run of characters of one segment. It is the matcher of the
  example hosts only; the properties hold for every matcher.
\<close>

fun segMatch :: "string \<Rightarrow> string \<Rightarrow> bool" where
  "segMatch [] s = (s = [])"
| "segMatch (p # ps) s =
     (if p = CHR ''*'' then segMatch ps s \<or> (case s of [] \<Rightarrow> False | c # cs \<Rightarrow> segMatch (p # ps) cs)
      else (case s of [] \<Rightarrow> False | c # cs \<Rightarrow> p = c \<and> segMatch ps cs))"

fun segsMatch :: "string list \<Rightarrow> string list \<Rightarrow> bool" where
  "segsMatch [] ss = (ss = [])"
| "segsMatch (p # ps) ss =
     (if p = ''**'' then segsMatch ps ss \<or> (case ss of [] \<Rightarrow> False | s # ss' \<Rightarrow> segsMatch (p # ps) ss')
      else (case ss of [] \<Rightarrow> False | s # ss' \<Rightarrow> segMatch p s \<and> segsMatch ps ss'))"

fun segments :: "string \<Rightarrow> string list" where
  "segments [] = [[]]"
| "segments (c # cs) =
     (if c = CHR ''/'' then [] # segments cs
      else (case segments cs of s # ss \<Rightarrow> (c # s) # ss | [] \<Rightarrow> [[c]]))"

definition glob :: "string \<Rightarrow> string \<Rightarrow> bool" where
  "glob path pattern = segsMatch (segments pattern) (segments path)"

definition parentDir :: "string \<Rightarrow> string" where
  "parentDir p =
     (case lastIndexOf p (CHR ''/'') of
        None \<Rightarrow> ''.''
      | Some 0 \<Rightarrow> ''/''
      | Some (Suc i) \<Rightarrow> take (Suc i) p)"

definition joined :: "string \<Rightarrow> string \<Rightarrow> string" where
  "joined d f = (if d = ''/'' then d @ f else d @ ''/'' @ f)"

definition exampleHost ::
  "(string \<times> jstext) list \<Rightarrow> (jstext \<times> json) list \<Rightarrow> (string \<times> string list) list
     \<Rightarrow> string option \<Rightarrow> host" where
  "exampleHost files parses ignores home =
     \<lparr>existsSync = (\<lambda>p. map_of files p \<noteq> None \<or> map_of ignores p \<noteq> None),
      readFileSync = map_of files,
      parseJSON = map_of parses,
      dirname = parentDir,
      joinPath = joined,
      resolvePath = joined,
      userHome = home,
      processIgnoreFile = (\<lambda>p. case map_of ignores p of Some ps \<Rightarrow> ps | None \<Rightarrow> []),
      minimatch = glob\<rparr>"

text \<open>
  The texts and the values they parse to: \<open>rcA\<close> extends \<^verbatim>\<open>b.json\<close>, \<open>rcB\<close> extends
  \<^verbatim>\<open>c.json\<close>, \<open>rcC\<close> extends nothing. The hosts: \<open>chainHost\<close> holds the three as
  \<^verbatim>\<open>/p/.jshintrc\<close>, \<^verbatim>\<open>/p/b.json\<close> and \<^verbatim>\<open>/p/c.json\<close>; \<open>missingHost\<close> holds the first
  only; \<open>brokenHost\<close> holds the first and a \<^verbatim>\<open>/p/b.json\<close> that does not parse; \<open>nullHost\<close>
  holds a \<^verbatim>\<open>/p/.jshintrc\<close> with the text \<^verbatim>\<open>null\<close>; \<open>pinnedHost\<close> holds \<open>rcA\<close> as
  \<^verbatim>\<open>/cfg/pinned.json\<close> beside a project file, \<open>pinnedOnlyHost\<close> without the project file;
  \<open>homeHost\<close> holds \<open>rcC\<close> as \<^verbatim>\<open>.jshintrc\<close> of the home directory \<^verbatim>\<open>/home/u\<close>;
  \<open>emptyHost\<close> holds no file; \<open>ignoreHost\<close> holds the ignore file
  \<^verbatim>\<open>/p/sub/.jshintignore\<close> with the pattern \<^verbatim>\<open>gen/**\<close>; \<open>projectHost\<close> holds \<open>rcC\<close> as
  \<^verbatim>\<open>/p/.jshintrc\<close> and no pinned file; \<open>explicitIgnoreHost\<close> holds the ignore file
  \<^verbatim>\<open>/cfg/ignore\<close> with the pattern \<^verbatim>\<open>src/**\<close>; \<open>lengthHost\<close> holds a \<^verbatim>\<open>/p/.jshintrc\<close> with
  an array under \<^verbatim>\<open>predef\<close> that extends a \<^verbatim>\<open>/p/b.json\<close> with an object under \<^verbatim>\<open>predef\<close>.
  \<open>mergedB\<close> and \<open>mergedA\<close> are the objects the two merges of \<open>chainHost\<close> give.
\<close>

definition rcA :: jstext where
  "rcA = js ''{\"extends\": \"b.json\", \"predef\": [\"a\"], \"globals\": {\"x\": true}, \"undef\": true}''"

definition rcB :: jstext where
  "rcB = js ''{\"extends\": \"c.json\", \"predef\": [\"b\"], \"globals\": {\"y\": true}, \"undef\": false}''"

definition rcC :: jstext where
  "rcC = js ''{\"predef\": [\"c\"], \"curly\": true}''"

definition objA :: "(string \<times> json) list" where
  "objA = [(''extends'', JStr ''b.json''), (''predef'', JArr [JStr ''a'']),
           (''globals'', JObj [(''x'', JBool True)]), (''undef'', JBool True)]"

definition objB :: "(string \<times> json) list" where
  "objB = [(''extends'', JStr ''c.json''), (''predef'', JArr [JStr ''b'']),
           (''globals'', JObj [(''y'', JBool True)]), (''undef'', JBool False)]"

definition objC :: "(string \<times> json) list" where
  "objC = [(''predef'', JArr [JStr ''c'']), (''curly'', JBool True)]"

definition chainHost :: host where
  "chainHost =
     exampleHost
       [(''/p/.jshintrc'', rcA), (''/p/b.json'', rcB), (''/p/c.json'', rcC)]
       [(rcA, JObj objA), (rcB, JObj objB), (rcC, JObj objC)] [] None"

lemma rc_strip: "stripComments rcA = rcA" "stripComments rcB = rcB" "stripComments rcC = rcC"
  by code_simp+

lemma rc_distinct: "rcA \<noteq> rcB" "rcA \<noteq> rcC" "rcB \<noteq> rcC"
  by code_simp+

lemma chainHost_parses:
  "parsesTo chainHost ''/p/.jshintrc'' (JObj objA)"
  "parsesTo chainHost ''/p/b.json'' (JObj objB)"
  "parsesTo chainHost ''/p/c.json'' (JObj objC)"
  using rc_distinct by (simp_all add: parsesTo_def chainHost_def exampleHost_def rc_strip)

lemma chainHost_paths:
  "resolvePath chainHost (dirname chainHost ''/p/.jshintrc'') ''b.json'' = ''/p/b.json''"
  "resolvePath chainHost (dirname chainHost ''/p/b.json'') ''c.json'' = ''/p/c.json''"
  "existsSync chainHost ''/p/b.json''" "existsSync chainHost ''/p/c.json''"
  by (simp_all add: chainHost_def exampleHost_def parentDir_def joined_def)

definition mergedB :: "(string \<times> json) list" where
  "mergedB =
     [(''predef'', JArr [JStr ''c'', JStr ''b'']), (''curly'', JBool True),
      (''extends'', JStr ''c.json''), (''globals'', JObj [(''y'', JBool True)]),
      (''undef'', JBool False)]"

definition mergedA :: "(string \<times> json) list" where
  "mergedA =
     [(''predef'', JArr [JStr ''c'', JStr ''b'', JStr ''a'']), (''curly'', JBool True),
      (''globals'', JObj [(''y'', JBool True), (''x'', JBool True)]), (''undef'', JBool True),
      (''extends'', JStr ''b.json'')]"

lemma chain_merges:
  "mergeFields objC objB = Inr mergedB"
  "mergeFields (AList.delete ''extends'' mergedB) objA = Inr mergedA"
  by code_simp+

lemma chain_extends:
  "map_of objA ''extends'' = Some (JStr ''b.json'')" "''b.json'' \<noteq> []"
  "map_of objB ''extends'' = Some (JStr ''c.json'')" "''c.json'' \<noteq> []"
  "map_of objC ''extends'' = None" "distinct (map fst objA)" "distinct (map fst objB)"
  by (simp_all add: objA_def objB_def objC_def)

lemma chainHost_resolves:
  "readJSHintFile chainHost ''/p/.jshintrc'' None =
     Some ([], Inr (JObj [(''predef'', JArr [JStr ''c'', JStr ''b'', JStr ''a'']),
                          (''curly'', JBool True),
                          (''globals'', JObj [(''y'', JBool True), (''x'', JBool True)]),
                          (''undef'', JBool True)]))"
  using readJSHintFile_chain[OF chainHost_parses chain_extends(1,2) chainHost_paths(1,3)
      chain_extends(3,4) chainHost_paths(2,4) chain_extends(5), of None]
  by (simp add: chain_merges) (simp add: mergedA_def)

lemma chainHost_locate:
  "locateFile chainHost ''/p/a.js'' ''package.json'' = Some None"
  "locateFile chainHost ''/p/a.js'' JSHINTRC = Some (Some ''/p/.jshintrc'')"
  by (simp_all add: locateFile.simps chainHost_def exampleHost_def joined_def parentDir_def
      Let_def JSHINTRC_def)

lemma new_flatSource: "flatSource h OptionsResolver_new = None"
  by (simp add: flatSource_def OptionsResolver_new_def truthyPath_def legacyConfig_def)

lemma chainHost_getOptions:
  "returned (getOptions chainHost OptionsResolver_new ''/p/a.js'') =
     Some ([], Inr (Some (JObj [(''predef'', JArr [JStr ''c'', JStr ''b'', JStr ''a'']),
                          (''curly'', JBool True),
                          (''globals'', JObj [(''y'', JBool True), (''x'', JBool True)]),
                          (''undef'', JBool True)])))"
proof -
  have "\<not> truthyU (optionsCache OptionsResolver_new ''/p/a.js'')"
    by (simp add: OptionsResolver_new_def truthyU_def)
  from returned_getOptions_miss[OF this, of chainHost]
  show ?thesis
    by (simp add: readOptions_not_flat[OF new_flatSource] chainHost_locate truthyPath_def
        projectOptions_def chainHost_resolves)
qed

definition pinnedHost :: host where
  "pinnedHost =
     exampleHost [(''/cfg/pinned.json'', rcA), (''/p/.jshintrc'', rcC)]
       [(rcA, JObj objA), (rcC, JObj objC)] [] None"

definition pinnedResolver :: options_resolver where
  "pinnedResolver = OptionsResolver_configure (Some ''/cfg/pinned.json'') None OptionsResolver_new"

lemma pinnedHost_facts:
  "parsesTo pinnedHost ''/cfg/pinned.json'' (JObj objA)"
  "existsSync pinnedHost ''/cfg/pinned.json''"
  "flatSource pinnedHost pinnedResolver = Some ''/cfg/pinned.json''"
  "configPath pinnedResolver = Some ''/cfg/pinned.json''"
  "\<not> truthyU (optionsCache pinnedResolver fsPath)"
  using rc_distinct
  by (simp_all add: parsesTo_def pinnedHost_def exampleHost_def rc_strip flatSource_def
      pinnedResolver_def OptionsResolver_configure_def truthyPath_def truthyU_def)

lemma pinnedHost_getOptions:
  "returned (getOptions pinnedHost pinnedResolver ''/p/a.js'') = Some ([], Inr (Some (JObj objA)))"
  using returned_getOptions_miss[OF pinnedHost_facts(5), where h=pinnedHost and fsPath="''/p/a.js''"]
    readOptions_flat[OF pinnedHost_facts(3)] readJsonFile_parsesTo[OF pinnedHost_facts(1)]
  by simp

definition homeHost :: host where
  "homeHost = exampleHost [(''/home/u/.jshintrc'', rcC)] [(rcC, JObj objC)] [] (Some ''/home/u'')"

lemma chainHost_getOptions_full:
  "getOptions chainHost OptionsResolver_new ''/p/a.js'' =
     Some ([], Inr (Some (JObj [(''predef'', JArr [JStr ''c'', JStr ''b'', JStr ''a'']),
                          (''curly'', JBool True),
                          (''globals'', JObj [(''y'', JBool True), (''x'', JBool True)]),
                          (''undef'', JBool True)])),
           OptionsResolver_new\<lparr>optionsCache := (optionsCache OptionsResolver_new)
             (''/p/a.js'' := Some (JObj [(''predef'', JArr [JStr ''c'', JStr ''b'', JStr ''a'']),
                          (''curly'', JBool True),
                          (''globals'', JObj [(''y'', JBool True), (''x'', JBool True)]),
                          (''undef'', JBool True)]))\<rparr>)"
proof -
  have m: "\<not> truthyU (optionsCache OptionsResolver_new ''/p/a.js'')"
    by (simp add: OptionsResolver_new_def truthyU_def)
  have "readOptions chainHost OptionsResolver_new ''/p/a.js'' =
      Some ([], Inr (Some (JObj [(''predef'', JArr [JStr ''c'', JStr ''b'', JStr ''a'']),
                          (''curly'', JBool True),
                          (''globals'', JObj [(''y'', JBool True), (''x'', JBool True)]),
                          (''undef'', JBool True)])))"
    using returned_getOptions_miss[OF m, where h=chainHost] chainHost_getOptions by simp
  then show ?thesis by (simp add: getOptions_miss[OF m])
qed

lemma chainHost_search:
  "noPackageConfig chainHost ''/p/a.js''"
  "truthyU (ownExtends chainHost ''/p/.jshintrc'')"
  using chainHost_locate(1) readJsonFile_parsesTo[OF chainHost_parses(1), of None]
  by (simp_all add: noPackageConfig_def truthyPath_def ownExtends_def objA_def truthyU_def)

lemma homeHost_locate:
  "locateFile homeHost ''/p/a.js'' ''package.json'' = Some None"
  "locateFile homeHost ''/p/a.js'' JSHINTRC = Some None"
  "joinPath homeHost (the (userHome homeHost)) JSHINTRC = ''/home/u/.jshintrc''"
  "truthyPath (userHome homeHost)" "existsSync homeHost ''/home/u/.jshintrc''"
  "parsesTo homeHost ''/home/u/.jshintrc'' (JObj objC)"
  by (simp_all add: locateFile.simps homeHost_def exampleHost_def joined_def parentDir_def
      Let_def JSHINTRC_def truthyPath_def parsesTo_def rc_strip)

lemma homeHost_search:
  "noPackageConfig homeHost ''/p/a.js''"
  "ownExtends homeHost ''/home/u/.jshintrc'' = None"
  using homeHost_locate(1) readJsonFile_parsesTo[OF homeHost_locate(6), of None]
  by (simp_all add: noPackageConfig_def truthyPath_def ownExtends_def objC_def)

lemma homeHost_readOptions:
  assumes "flatSource homeHost r = None"
  shows "readOptions homeHost r ''/p/a.js'' = Some ([], Inr (Some (JObj objC)))"
proof -
  have "readJSHintFile homeHost ''/home/u/.jshintrc'' None = Some ([], Inr (JObj objC))"
    by (rule readJSHintFile_plain[OF readJsonFile_parsesTo[OF homeHost_locate(6)]])
       (simp_all add: objC_def truthyU_def)
  then show ?thesis
    using homeHost_locate
    by (simp add: readOptions_not_flat[OF assms] truthyPath_def projectOptions_def
        homeOptions_def)
qed

lemma homeHost_getOptions_full:
  "getOptions homeHost OptionsResolver_new ''/p/a.js'' =
     Some ([], Inr (Some (JObj objC)),
           OptionsResolver_new\<lparr>optionsCache := (optionsCache OptionsResolver_new)
             (''/p/a.js'' := Some (JObj objC))\<rparr>)"
proof -
  have m: "\<not> truthyU (optionsCache OptionsResolver_new ''/p/a.js'')"
    by (simp add: OptionsResolver_new_def truthyU_def)
  show ?thesis
    by (simp add: getOptions_miss[OF m] homeHost_readOptions[OF new_flatSource])
qed

definition nullHost :: host where
  "nullHost = exampleHost [(''/p/.jshintrc'', js ''null'')] [(js ''null'', JNull)] [] None"

lemma null_strip: "stripComments (js ''null'') = js ''null''"
  by code_simp

lemma nullHost_facts:
  "parsesTo nullHost ''/p/.jshintrc'' JNull"
  "locateFile nullHost ''/p/a.js'' ''package.json'' = Some None"
  "locateFile nullHost ''/p/a.js'' JSHINTRC = Some (Some ''/p/.jshintrc'')"
  by (simp_all add: locateFile.simps nullHost_def exampleHost_def joined_def parentDir_def
      Let_def JSHINTRC_def parsesTo_def null_strip)

definition pinnedOnlyHost :: host where
  "pinnedOnlyHost =
     exampleHost [(''/cfg/pinned.json'', rcA)] [(rcA, JObj objA), (rcC, JObj objC)] [] None"

definition emptyHost :: host where
  "emptyHost = exampleHost [] [] [] None"

lemma emptyHost_locate:
  "locateFile emptyHost ''/p/a.js'' ''package.json'' = Some None"
  "locateFile emptyHost ''/p/a.js'' JSHINTRC = Some None"
  by (simp_all add: locateFile.simps emptyHost_def exampleHost_def joined_def parentDir_def
      Let_def JSHINTRC_def)

lemma emptyHost_getOptions:
  "getOptions emptyHost OptionsResolver_new ''/p/a.js'' =
     Some ([], Inr (Some JNull),
           OptionsResolver_new\<lparr>optionsCache := (optionsCache OptionsResolver_new)
             (''/p/a.js'' := Some JNull)\<rparr>)"
proof -
  have m: "\<not> truthyU (optionsCache OptionsResolver_new ''/p/a.js'')"
    by (simp add: OptionsResolver_new_def truthyU_def)
  have u: "userHome emptyHost = None" "jshintOptions OptionsResolver_new = Some JNull"
    by (simp_all add: emptyHost_def exampleHost_def OptionsResolver_new_def)
  have "readOptions emptyHost OptionsResolver_new ''/p/a.js'' = Some ([], Inr (Some JNull))"
    using emptyHost_locate u
    by (simp add: readOptions_not_flat[OF new_flatSource] truthyPath_def projectOptions_def
        homeOptions_def)
  then show ?thesis by (simp add: getOptions_miss[OF m])
qed







definition missingHost :: host where
  "missingHost = exampleHost [(''/p/.jshintrc'', rcA)] [(rcA, JObj objA)] [] None"

definition brokenHost :: host where
  "brokenHost =
     exampleHost [(''/p/.jshintrc'', rcA), (''/p/b.json'', js ''{'')] [(rcA, JObj objA)] [] None"

lemma broken_text: "stripComments (js ''{'') = js ''{''" "rcA \<noteq> js ''{''"
  by code_simp+

lemma brokenHost_facts:
  "parsesTo brokenHost ''/p/.jshintrc'' (JObj objA)"
  "Option.bind (readFileSync brokenHost ''/p/b.json'')
     (\<lambda>content. parseJSON brokenHost (stripComments content)) = None"
  "resolvePath brokenHost (dirname brokenHost ''/p/.jshintrc'') ''b.json'' = ''/p/b.json''"
  "existsSync brokenHost ''/p/b.json''"
  "locateFile brokenHost ''/p/a.js'' ''package.json'' = Some None"
  "locateFile brokenHost ''/p/a.js'' JSHINTRC = Some (Some ''/p/.jshintrc'')"
  using broken_text(2)
  by (simp_all add: locateFile.simps brokenHost_def exampleHost_def joined_def parentDir_def
      Let_def JSHINTRC_def parsesTo_def rc_strip broken_text(1))

lemma brokenHost_chainEnds: "chainEnds brokenHost ''/p/.jshintrc'' None"
proof -
  have b: "snd (readJsonFile brokenHost ''/p/b.json'' (Some ''/p/.jshintrc'')) = JObj []"
    by (simp add: readJsonFile_failed[OF brokenHost_facts(2)])
  have "chainEnds brokenHost ''/p/b.json'' (Some ''/p/.jshintrc'')"
    by (rule chainEnds.leaf[OF b]) (simp_all add: truthyU_def)
  then have c: "chainEnds brokenHost
      (resolvePath brokenHost (dirname brokenHost ''/p/.jshintrc'') ''b.json'') (Some ''/p/.jshintrc'')"
    by (simp add: brokenHost_facts(3))
  have a: "snd (readJsonFile brokenHost ''/p/.jshintrc'' None) = JObj objA"
    by (simp add: readJsonFile_parsesTo[OF brokenHost_facts(1)])
  show ?thesis
    by (rule chainEnds.parent[OF a _ _ _ _ c])
       (simp_all add: objA_def brokenHost_facts(3,4))
qed

lemma brokenHost_resolves:
  "readJSHintFile brokenHost ''/p/.jshintrc'' None =
     Some ([''Can't load JSHint configuration from file /p/b.json extended from /p/.jshintrc. Please check the file for syntax errors.''],
           Inr (JObj [(''predef'', JArr [JStr ''a'']),
                      (''globals'', JObj [(''x'', JBool True)]), (''undef'', JBool True)]))"
proof -
  have b: "readJsonFile brokenHost ''/p/b.json'' (Some ''/p/.jshintrc'') =
      ([''Can't load JSHint configuration from file /p/b.json extended from /p/.jshintrc. Please check the file for syntax errors.''], JObj [])"
    by (simp add: readJsonFile_failed[OF brokenHost_facts(2)] truthyPath_def cantLoad_def)
  have rb: "readJSHintFile brokenHost ''/p/b.json'' (Some ''/p/.jshintrc'') =
      Some ([''Can't load JSHint configuration from file /p/b.json extended from /p/.jshintrc. Please check the file for syntax errors.''], Inr (JObj []))"
    by (rule readJSHintFile_plain[OF b]) (simp_all add: truthyU_def)
  have e: "map_of objA ''extends'' = Some (JStr ''b.json'')" "''b.json'' \<noteq> []"
    by (simp_all add: objA_def)
  have v: "mergeFields [] objA =
      Inr [(''extends'', JStr ''b.json''), (''predef'', JArr [JStr ''a'']),
           (''globals'', JObj [(''x'', JBool True)]), (''undef'', JBool True)]"
    by code_simp
  from readJSHintFile_extends[OF readJsonFile_parsesTo[OF brokenHost_facts(1)] e, where base="[]"]
    brokenHost_facts(3,4) rb v
  show ?thesis by simp
qed

definition projectHost :: host where
  "projectHost =
     exampleHost [(''/p/.jshintrc'', rcC)] [(rcA, JObj objA), (rcC, JObj objC)] [] None"

lemma projectHost_facts:
  "parsesTo projectHost ''/p/.jshintrc'' (JObj objC)"
  "locateFile projectHost ''/p/a.js'' ''package.json'' = Some None"
  "locateFile projectHost ''/p/a.js'' JSHINTRC = Some (Some ''/p/.jshintrc'')"
  "flatSource projectHost pinnedResolver = None"
  using rc_distinct
  by (simp_all add: locateFile.simps projectHost_def exampleHost_def joined_def parentDir_def
      Let_def JSHINTRC_def parsesTo_def rc_strip flatSource_def pinnedResolver_def
      OptionsResolver_configure_def OptionsResolver_new_def truthyPath_def legacyConfig_def)

lemma projectHost_getOptions:
  "getOptions projectHost pinnedResolver ''/p/a.js'' =
     Some ([], Inr (Some (JObj objC)),
           pinnedResolver\<lparr>optionsCache := (optionsCache pinnedResolver)
             (''/p/a.js'' := Some (JObj objC))\<rparr>)"
proof -
  have "readJSHintFile projectHost ''/p/.jshintrc'' None = Some ([], Inr (JObj objC))"
    by (rule readJSHintFile_plain[OF readJsonFile_parsesTo[OF projectHost_facts(1)]])
       (simp_all add: objC_def truthyU_def)
  then have "readOptions projectHost pinnedResolver ''/p/a.js'' = Some ([], Inr (Some (JObj objC)))"
    using projectHost_facts(2,3)
    by (simp add: readOptions_not_flat[OF projectHost_facts(4)] truthyPath_def projectOptions_def)
  then show ?thesis by (simp add: getOptions_miss[OF pinnedHost_facts(5)])
qed





definition rcL :: jstext where
  "rcL = js ''{\"extends\": \"b.json\", \"predef\": [\"a\"]}''"

definition rcM :: jstext where
  "rcM = js ''{\"predef\": {\"length\": 5000000000}}''"

definition objL :: "(string \<times> json) list" where
  "objL = [(''extends'', JStr ''b.json''), (''predef'', JArr [JStr ''a''])]"

definition objM :: "(string \<times> json) list" where
  "objM = [(''predef'', JObj [(''length'', JNum 5000000000)])]"

definition lengthHost :: host where
  "lengthHost =
     exampleHost [(''/p/.jshintrc'', rcL), (''/p/b.json'', rcM)]
       [(rcL, JObj objL), (rcM, JObj objM)] [] None"

lemma length_strip: "stripComments rcL = rcL" "stripComments rcM = rcM" "rcL \<noteq> rcM"
  by code_simp+

lemma lengthHost_facts:
  "parsesTo lengthHost ''/p/.jshintrc'' (JObj objL)"
  "parsesTo lengthHost ''/p/b.json'' (JObj objM)"
  "resolvePath lengthHost (dirname lengthHost ''/p/.jshintrc'') ''b.json'' = ''/p/b.json''"
  "existsSync lengthHost ''/p/b.json''"
  "locateFile lengthHost ''/p/a.js'' ''package.json'' = Some None"
  "locateFile lengthHost ''/p/a.js'' JSHINTRC = Some (Some ''/p/.jshintrc'')"
  using length_strip(3)
  by (simp_all add: locateFile.simps lengthHost_def exampleHost_def joined_def parentDir_def
      Let_def JSHINTRC_def parsesTo_def length_strip(1,2))

text \<open>
  The merge of lodash on array-like values. An array of the child that meets an object
  of the parent with the indices \<^verbatim>\<open>0\<close>, \<^verbatim>\<open>1\<close> and the \<^verbatim>\<open>length\<close> \<^verbatim>\<open>2\<close> is merged into a copy
  of that object as an array; without the indices the copy holds \<^verbatim>\<open>undefined\<close>; an object
  under \<^verbatim>\<open>__proto__\<close> is dropped. In \<open>lengthHost\<close> the parent's \<^verbatim>\<open>length\<close> is above
  \<^verbatim>\<open>4294967295\<close>: \<^verbatim>\<open>Array(length)\<close> throws a \<^verbatim>\<open>RangeError\<close>, which leaves \<^verbatim>\<open>getOptions\<close>.
\<close>

lemma arrayLike_examples:
  "mergeFields
     [(''predef'', JObj [(''0'', JStr ''x''), (''1'', JStr ''y''), (''length'', JNum 2)])]
     [(''predef'', JArr [JStr ''a''])]
   = Inr [(''predef'', JArr [JStr ''a'', JStr ''y''])]"
  "mergeFields [(''predef'', JObj [(''length'', JNum 2)])] [(''predef'', JArr [JStr ''a''])]
   = Inl NotATree"
  "mergeFields [] [(''__proto__'', JObj [(''x'', JBool True)]), (''undef'', JBool True)]
   = Inr [(''undef'', JBool True)]"
  "mergeFields objM objL = Inl RangeError"
  by code_simp+

lemma lengthHost_raises:
  "readJSHintFile lengthHost ''/p/.jshintrc'' None = Some ([], Inl RangeError)"
  "getOptions lengthHost OptionsResolver_new ''/p/a.js''
     = Some ([], Inl RangeError, OptionsResolver_new)"
proof -
  have rb: "readJSHintFile lengthHost ''/p/b.json'' (Some ''/p/.jshintrc'') = Some ([], Inr (JObj objM))"
    by (rule readJSHintFile_plain[OF readJsonFile_parsesTo[OF lengthHost_facts(2)]])
       (simp_all add: objM_def truthyU_def)
  have e: "map_of objL ''extends'' = Some (JStr ''b.json'')" "''b.json'' \<noteq> []"
    by (simp_all add: objL_def)
  from readJSHintFile_extends[OF readJsonFile_parsesTo[OF lengthHost_facts(1)] e, where base=objM]
    lengthHost_facts(3,4) rb arrayLike_examples(4)
  show r: "readJSHintFile lengthHost ''/p/.jshintrc'' None = Some ([], Inl RangeError)"
    by simp
  have m: "\<not> truthyU (optionsCache OptionsResolver_new ''/p/a.js'')"
    by (simp add: OptionsResolver_new_def truthyU_def)
  from r have "readOptions lengthHost OptionsResolver_new ''/p/a.js'' = Some ([], Inl RangeError)"
    using lengthHost_facts(5,6)
    by (simp add: readOptions_not_flat[OF new_flatSource] truthyPath_def projectOptions_def)
  then show "getOptions lengthHost OptionsResolver_new ''/p/a.js''
     = Some ([], Inl RangeError, OptionsResolver_new)"
    by (simp add: getOptions_miss[OF m])
qed

section \<open>C1: inheritance along a chain\<close>

text \<open>
  C1, as stated, fails for object-valued fields. In \<open>chainHost\<close> the project file
  \<^verbatim>\<open>/p/.jshintrc\<close> (\<open>rcA\<close>) extends \<^verbatim>\<open>b.json\<close> (\<open>rcB\<close>), which extends \<^verbatim>\<open>c.json\<close> (\<open>rcC\<close>).
  Parent and child both hold an object under \<^verbatim>\<open>globals\<close>: the resolved configuration holds
  the two merged, \<^verbatim>\<open>{"y": true, "x": true}\<close>, and not the child's \<^verbatim>\<open>{"x": true}\<close>.
\<close>

theorem extends_chain_object_counterexample:
  "parsesTo chainHost ''/p/.jshintrc'' (JObj objA) \<and>
   parsesTo chainHost ''/p/b.json'' (JObj objB) \<and>
   map_of objA ''globals'' = Some (JObj [(''x'', JBool True)]) \<and>
   map_of objB ''globals'' = Some (JObj [(''y'', JBool True)]) \<and>
   readJSHintFile chainHost ''/p/.jshintrc'' None =
     Some ([], Inr (JObj [(''predef'', JArr [JStr ''c'', JStr ''b'', JStr ''a'']),
                          (''curly'', JBool True),
                          (''globals'', JObj [(''y'', JBool True), (''x'', JBool True)]),
                          (''undef'', JBool True)]))"
  using chainHost_parses(1,2) chainHost_resolves by (simp add: objA_def objB_def)

text \<open>
  C1, amended. For every chain of configuration files A extends B extends C, each parsing
  to an object (C without \<^verbatim>\<open>extends\<close>), inheritance processing of A merges B's properties
  into C's object, deletes \<^verbatim>\<open>extends\<close>, and merges A's properties into that (\<open>p\<close> and \<open>q\<close>
  below are the two merged objects). Both merges succeed, and a configuration is
  returned, whenever the three objects are ordinary. Whenever they succeed, the
  configuration returned is \<open>q\<close> without \<^verbatim>\<open>extends\<close>, no message is shown, and in the
  configuration:

  \<^item> no key \<^verbatim>\<open>extends\<close> is left;

  \<^item> a field, other than \<^verbatim>\<open>__proto__\<close>, that is an array in all three files holds C's
    items, then B's, then A's;

  \<^item> a field of A that is a scalar (neither an array nor an object) replaces what the
    ancestors hold, unless one of them holds an array under that key;

  \<^item> a field, other than \<^verbatim>\<open>__proto__\<close>, that is an object in A and an object in the
    configuration resolved for B holds the latter with A's object merged into it
    recursively, not A's object alone; in the same way the configuration resolved for B
    holds C's object with B's merged into it, and B's object merged into an empty one
    where C holds neither an object nor an array;

  \<^item> a key that A does not hold keeps the value resolved for B, and a key that B does
    not hold keeps C's value there.

  In every merge of an object into another, the keys that the source object does not
  hold keep their values.
\<close>

theorem extends_chain:
  fixes h :: host
  assumes A: "parsesTo h fa (JObj a)" and B: "parsesTo h fb (JObj b)" and C: "parsesTo h fc (JObj c)"
    and ea: "map_of a ''extends'' = Some (JStr ea)" "ea \<noteq> []"
            "resolvePath h (dirname h fa) ea = fb" "existsSync h fb"
    and eb: "map_of b ''extends'' = Some (JStr eb)" "eb \<noteq> []"
            "resolvePath h (dirname h fb) eb = fc" "existsSync h fc"
    and ec: "map_of c ''extends'' = None"
    and da: "distinct (map fst a)" and db: "distinct (map fst b)"
  shows "(ordinary (JObj a) \<and> ordinary (JObj b) \<and> ordinary (JObj c) \<longrightarrow>
            (\<exists>p q. mergeFields c b = Inr p \<and> mergeFields (AList.delete ''extends'' p) a = Inr q \<and>
               readJSHintFile h fa extendedFrom =
                 Some ([], Inr (JObj (AList.delete ''extends'' q))))) \<and>
         (\<forall>p q.
            mergeFields c b = Inr p \<and> mergeFields (AList.delete ''extends'' p) a = Inr q \<longrightarrow>
            readJSHintFile h fa extendedFrom = Some ([], Inr (JObj (AList.delete ''extends'' q))) \<and>
            map_of (AList.delete ''extends'' q) ''extends'' = None \<and>
            (\<forall>k xs ys zs.
               k \<noteq> ''__proto__'' \<and> map_of c k = Some (JArr xs) \<and> map_of b k = Some (JArr ys) \<and>
               map_of a k = Some (JArr zs)
               \<longrightarrow> map_of (AList.delete ''extends'' q) k = Some (JArr (xs @ ys @ zs))) \<and>
            (\<forall>k v.
               k \<noteq> ''extends'' \<and> map_of a k = Some v \<and> \<not> isObject v \<and>
               \<not> isArray (map_of b k) \<and> \<not> isArray (map_of c k)
               \<longrightarrow> map_of (AList.delete ''extends'' q) k = Some v) \<and>
            (\<forall>k oa op.
               k \<noteq> ''__proto__'' \<and> map_of a k = Some (JObj oa) \<and>
               map_of (AList.delete ''extends'' p) k = Some (JObj op)
               \<longrightarrow> (\<exists>m. mergeFields op oa = Inr m \<and>
                        map_of (AList.delete ''extends'' q) k = Some (JObj m))) \<and>
            (\<forall>k ob oc.
               k \<noteq> ''__proto__'' \<and> map_of b k = Some (JObj ob) \<and> map_of c k = Some (JObj oc)
               \<longrightarrow> (\<exists>m. mergeFields oc ob = Inr m \<and>
                        map_of (AList.delete ''extends'' p) k = Some (JObj m))) \<and>
            (\<forall>k ob.
               k \<noteq> ''__proto__'' \<and> map_of b k = Some (JObj ob) \<and>
               \<not> isArray (map_of c k) \<and> \<not> isPlainObject (map_of c k)
               \<longrightarrow> (\<exists>m. mergeFields [] ob = Inr m \<and>
                        map_of (AList.delete ''extends'' p) k = Some (JObj m))) \<and>
            (\<forall>k. map_of a k = None
               \<longrightarrow> map_of (AList.delete ''extends'' q) k = map_of (AList.delete ''extends'' p) k) \<and>
            (\<forall>k. map_of b k = None \<longrightarrow> map_of (AList.delete ''extends'' p) k = map_of c k)) \<and>
         (\<forall>obj src m j.
            distinct (map fst src) \<and> mergeFields obj src = Inr m \<and> map_of src j = None
            \<longrightarrow> map_of m j = map_of obj j)"
    (is "(?O \<longrightarrow> ?S) \<and> (\<forall>p q. ?H p q \<longrightarrow> ?B p q) \<and> ?G")
proof -
  note 1 = readJSHintFile_chain[OF A B C ea eb ec, of extendedFrom]
  have 2: "?O \<longrightarrow> ?S"
  proof
    assume o: ?O
    then have oa: "ordinary (JObj a)" and ob: "ordinary (JObj b)" and oc: "ordinary (JObj c)"
      by blast+
    from merge_ordinary(2)[OF oc ob] obtain p where
      p: "mergeFields c b = Inr p" "ordinary (JObj p)" by blast
    from merge_ordinary(2)[OF ordinary_delete[OF p(2)] oa] obtain q where
      q: "mergeFields (AList.delete ''extends'' p) a = Inr q" by blast
    from 1 p(1) q
    have "readJSHintFile h fa extendedFrom = Some ([], Inr (JObj (AList.delete ''extends'' q)))"
      by simp
    with p(1) q show ?S by blast
  qed
  have 3: "?B p q" if m: "?H p q" for p q
  proof -
    from m have mb: "mergeFields c b = Inr p"
      and ma: "mergeFields (AList.delete ''extends'' p) a = Inr q"
      by blast+
    have pk: "map_of (AList.delete ''extends'' p) k = map_of p k" if "k \<noteq> ''extends''" for k
      using that by (simp add: delete_conv')
    have qk: "map_of (AList.delete ''extends'' q) k = map_of q k" if "k \<noteq> ''extends''" for k
      using that by (simp add: delete_conv')
    have r: "readJSHintFile h fa extendedFrom = Some ([], Inr (JObj (AList.delete ''extends'' q)))"
      using 1 mb ma by simp
    have noext: "map_of (AList.delete ''extends'' q) ''extends'' = None"
      by (simp add: delete_conv')
    have arrays: "\<forall>k xs ys zs.
               k \<noteq> ''__proto__'' \<and> map_of c k = Some (JArr xs) \<and> map_of b k = Some (JArr ys) \<and>
               map_of a k = Some (JArr zs)
               \<longrightarrow> map_of (AList.delete ''extends'' q) k = Some (JArr (xs @ ys @ zs))"
    proof (intro allI impI)
      fix k xs ys zs
      assume "k \<noteq> ''__proto__'' \<and> map_of c k = Some (JArr xs) \<and> map_of b k = Some (JArr ys) \<and>
               map_of a k = Some (JArr zs)"
      then have kp: "k \<noteq> ''__proto__''" and ck: "map_of c k = Some (JArr xs)"
        and bk: "map_of b k = Some (JArr ys)" and ak: "map_of a k = Some (JArr zs)"
        by blast+
      from bk eb(1) have ke: "k \<noteq> ''extends''" by auto
      from map_of_mergeFields_present[OF db mb bk kp] ck
      have "map_of p k = Some (JArr (xs @ ys))"
        by (auto simp: mergeValue_array)
      then have "map_of (AList.delete ''extends'' p) k = Some (JArr (xs @ ys))"
        by (simp add: pk[OF ke])
      with map_of_mergeFields_present[OF da ma ak kp]
      have "map_of q k = Some (JArr (xs @ ys @ zs))"
        by (auto simp: mergeValue_array)
      then show "map_of (AList.delete ''extends'' q) k = Some (JArr (xs @ ys @ zs))"
        by (simp add: qk[OF ke])
    qed
    have scalars: "\<forall>k v.
               k \<noteq> ''extends'' \<and> map_of a k = Some v \<and> \<not> isObject v \<and>
               \<not> isArray (map_of b k) \<and> \<not> isArray (map_of c k)
               \<longrightarrow> map_of (AList.delete ''extends'' q) k = Some v"
    proof (intro allI impI)
      fix k v
      assume "k \<noteq> ''extends'' \<and> map_of a k = Some v \<and> \<not> isObject v \<and>
               \<not> isArray (map_of b k) \<and> \<not> isArray (map_of c k)"
      then have ke: "k \<noteq> ''extends''" and ak: "map_of a k = Some v" and s: "\<not> isObject v"
        and nb: "\<not> isArray (map_of b k)" and nc: "\<not> isArray (map_of c k)"
        by blast+
      have "map_of q k = Some v"
      proof (cases "k = ''__proto__''")
        case True
        with map_of_mergeFields_proto[OF da ma] ak s show ?thesis by simp
      next
        case False
        have "\<not> isArray (map_of p k)"
        proof (cases "map_of b k")
          case None
          from map_of_mergeFields_absent[OF db mb None] nc show ?thesis by simp
        next
          case (Some vb)
          from map_of_mergeFields_present[OF db mb Some False] obtain nv where
            mv: "mergeValue (map_of c k) vb = Inr nv" and pv: "map_of p k = Some nv"
            by blast
          from mergeValue_not_array[OF mv nc] nb Some pv show ?thesis by simp
        qed
        then have np: "\<not> isArray (map_of (AList.delete ''extends'' p) k)"
          by (simp add: pk[OF ke])
        from map_of_mergeFields_present[OF da ma ak False] mergeValue_scalar[OF s np]
        show ?thesis by auto
      qed
      then show "map_of (AList.delete ''extends'' q) k = Some v"
        by (simp add: qk[OF ke])
    qed
    have objectsA: "\<forall>k oa op.
               k \<noteq> ''__proto__'' \<and> map_of a k = Some (JObj oa) \<and>
               map_of (AList.delete ''extends'' p) k = Some (JObj op)
               \<longrightarrow> (\<exists>m. mergeFields op oa = Inr m \<and>
                        map_of (AList.delete ''extends'' q) k = Some (JObj m))"
    proof (intro allI impI)
      fix k oa op
      assume "k \<noteq> ''__proto__'' \<and> map_of a k = Some (JObj oa) \<and>
               map_of (AList.delete ''extends'' p) k = Some (JObj op)"
      then have kp: "k \<noteq> ''__proto__''" and ak: "map_of a k = Some (JObj oa)"
        and pv: "map_of (AList.delete ''extends'' p) k = Some (JObj op)"
        by blast+
      from ak ea(1) have ke: "k \<noteq> ''extends''" by auto
      from map_of_mergeFields_present[OF da ma ak kp] pv obtain nv where
        mv: "mergeValue (Some (JObj op)) (JObj oa) = Inr nv" and qv: "map_of q k = Some nv"
        by auto
      from mv obtain m where "mergeFields op oa = Inr m" "nv = JObj m"
        by (auto simp: mergeValue_objects split: sum.splits)
      with qv show "\<exists>m. mergeFields op oa = Inr m \<and>
                        map_of (AList.delete ''extends'' q) k = Some (JObj m)"
        by (simp add: qk[OF ke])
    qed
    have objectsB: "\<forall>k ob oc.
               k \<noteq> ''__proto__'' \<and> map_of b k = Some (JObj ob) \<and> map_of c k = Some (JObj oc)
               \<longrightarrow> (\<exists>m. mergeFields oc ob = Inr m \<and>
                        map_of (AList.delete ''extends'' p) k = Some (JObj m))"
    proof (intro allI impI)
      fix k ob oc
      assume "k \<noteq> ''__proto__'' \<and> map_of b k = Some (JObj ob) \<and> map_of c k = Some (JObj oc)"
      then have kp: "k \<noteq> ''__proto__''" and bk: "map_of b k = Some (JObj ob)"
        and ck: "map_of c k = Some (JObj oc)"
        by blast+
      from bk eb(1) have ke: "k \<noteq> ''extends''" by auto
      from map_of_mergeFields_present[OF db mb bk kp] ck obtain nv where
        mv: "mergeValue (Some (JObj oc)) (JObj ob) = Inr nv" and pv: "map_of p k = Some nv"
        by auto
      from mv obtain m where "mergeFields oc ob = Inr m" "nv = JObj m"
        by (auto simp: mergeValue_objects split: sum.splits)
      with pv show "\<exists>m. mergeFields oc ob = Inr m \<and>
                        map_of (AList.delete ''extends'' p) k = Some (JObj m)"
        by (simp add: pk[OF ke])
    qed
    have fresh: "\<forall>k ob.
               k \<noteq> ''__proto__'' \<and> map_of b k = Some (JObj ob) \<and>
               \<not> isArray (map_of c k) \<and> \<not> isPlainObject (map_of c k)
               \<longrightarrow> (\<exists>m. mergeFields [] ob = Inr m \<and>
                        map_of (AList.delete ''extends'' p) k = Some (JObj m))"
    proof (intro allI impI)
      fix k ob
      assume "k \<noteq> ''__proto__'' \<and> map_of b k = Some (JObj ob) \<and>
               \<not> isArray (map_of c k) \<and> \<not> isPlainObject (map_of c k)"
      then have kp: "k \<noteq> ''__proto__''" and bk: "map_of b k = Some (JObj ob)"
        and nc: "\<not> isArray (map_of c k)" "\<not> isPlainObject (map_of c k)"
        by blast+
      from bk eb(1) have ke: "k \<noteq> ''extends''" by auto
      from map_of_mergeFields_present[OF db mb bk kp] obtain nv where
        mv: "mergeValue (map_of c k) (JObj ob) = Inr nv" and pv: "map_of p k = Some nv"
        by auto
      from mv obtain m where "mergeFields [] ob = Inr m" "nv = JObj m"
        by (auto simp: mergeValue_fresh_object[OF nc] split: sum.splits)
      with pv show "\<exists>m. mergeFields [] ob = Inr m \<and>
                        map_of (AList.delete ''extends'' p) k = Some (JObj m)"
        by (simp add: pk[OF ke])
    qed
    have keepA: "\<forall>k. map_of a k = None
               \<longrightarrow> map_of (AList.delete ''extends'' q) k = map_of (AList.delete ''extends'' p) k"
    proof (intro allI impI)
      fix k
      assume ak: "map_of a k = None"
      with ea(1) have ke: "k \<noteq> ''extends''" by auto
      from map_of_mergeFields_absent[OF da ma ak]
      show "map_of (AList.delete ''extends'' q) k = map_of (AList.delete ''extends'' p) k"
        by (simp add: qk[OF ke])
    qed
    have keepB: "\<forall>k. map_of b k = None \<longrightarrow> map_of (AList.delete ''extends'' p) k = map_of c k"
    proof (intro allI impI)
      fix k
      assume bk: "map_of b k = None"
      with eb(1) have ke: "k \<noteq> ''extends''" by auto
      from map_of_mergeFields_absent[OF db mb bk]
      show "map_of (AList.delete ''extends'' p) k = map_of c k"
        by (simp add: pk[OF ke])
    qed
    from r noext arrays scalars objectsA objectsB fresh keepA keepB show ?thesis
      by (intro conjI) assumption+
  qed
  have 4: ?G
    using map_of_mergeFields_absent by blast
  show ?thesis
  proof (intro conjI)
    show "?O \<longrightarrow> ?S" by (rule 2)
    show "\<forall>p q. ?H p q \<longrightarrow> ?B p q" by (intro allI impI) (rule 3)
    show ?G by (rule 4)
  qed
qed

theorem extends_chain_witness:
  "parsesTo chainHost ''/p/.jshintrc'' (JObj objA) \<and>
   parsesTo chainHost ''/p/b.json'' (JObj objB) \<and>
   parsesTo chainHost ''/p/c.json'' (JObj objC) \<and>
   map_of objA ''extends'' = Some (JStr ''b.json'') \<and>
   resolvePath chainHost (dirname chainHost ''/p/.jshintrc'') ''b.json'' = ''/p/b.json'' \<and>
   existsSync chainHost ''/p/b.json'' \<and>
   map_of objB ''extends'' = Some (JStr ''c.json'') \<and>
   resolvePath chainHost (dirname chainHost ''/p/b.json'') ''c.json'' = ''/p/c.json'' \<and>
   existsSync chainHost ''/p/c.json'' \<and>
   map_of objC ''extends'' = None \<and>
   distinct (map fst objA) \<and> distinct (map fst objB) \<and>
   ordinary (JObj objA) \<and> ordinary (JObj objB) \<and> ordinary (JObj objC) \<and>
   mergeFields objC objB = Inr mergedB \<and>
   mergeFields (AList.delete ''extends'' mergedB) objA = Inr mergedA \<and>
   readJSHintFile chainHost ''/p/.jshintrc'' None =
     Some ([], Inr (JObj (AList.delete ''extends'' mergedA))) \<and>
   map_of (AList.delete ''extends'' mergedA) ''extends'' = None \<and>
   map_of (AList.delete ''extends'' mergedA) ''predef''
     = Some (JArr ([JStr ''c''] @ [JStr ''b''] @ [JStr ''a''])) \<and>
   map_of (AList.delete ''extends'' mergedA) ''undef'' = Some (JBool True) \<and>
   map_of (AList.delete ''extends'' mergedB) ''globals'' = Some (JObj [(''y'', JBool True)]) \<and>
   map_of (AList.delete ''extends'' mergedA) ''globals''
     = Some (JObj [(''y'', JBool True), (''x'', JBool True)]) \<and>
   map_of (AList.delete ''extends'' mergedA) ''curly''
     = map_of (AList.delete ''extends'' mergedB) ''curly'' \<and>
   map_of (AList.delete ''extends'' mergedB) ''curly'' = map_of objC ''curly''"
proof -
  note t = extends_chain[OF chainHost_parses chain_extends(1,2) chainHost_paths(1,3)
      chain_extends(3,4) chainHost_paths(2,4) chain_extends(5,6,7), of None]
  have o: "ordinary (JObj objA)" "ordinary (JObj objB)" "ordinary (JObj objC)"
    by (simp_all add: objA_def objB_def objC_def)
  note s = t[THEN conjunct2, THEN conjunct1, rule_format,
      OF conjI[OF chain_merges(1) chain_merges(2)]]
  note r = s[THEN conjunct1]
  note ne = s[THEN conjunct2, THEN conjunct1]
  note arrays = s[THEN conjunct2, THEN conjunct2, THEN conjunct1, rule_format]
  note scalars = s[THEN conjunct2, THEN conjunct2, THEN conjunct2, THEN conjunct1, rule_format]
  note objectsA = s[THEN conjunct2, THEN conjunct2, THEN conjunct2, THEN conjunct2,
      THEN conjunct1, rule_format]
  note fresh = s[THEN conjunct2, THEN conjunct2, THEN conjunct2, THEN conjunct2,
      THEN conjunct2, THEN conjunct2, THEN conjunct1, rule_format]
  note keepA = s[THEN conjunct2, THEN conjunct2, THEN conjunct2, THEN conjunct2,
      THEN conjunct2, THEN conjunct2, THEN conjunct2, THEN conjunct1, rule_format]
  note keepB = s[THEN conjunct2, THEN conjunct2, THEN conjunct2, THEN conjunct2,
      THEN conjunct2, THEN conjunct2, THEN conjunct2, THEN conjunct2, rule_format]
  have 1: "''predef'' \<noteq> ''__proto__'' \<and> map_of objC ''predef'' = Some (JArr [JStr ''c'']) \<and>
           map_of objB ''predef'' = Some (JArr [JStr ''b'']) \<and>
           map_of objA ''predef'' = Some (JArr [JStr ''a''])"
    by (simp add: objA_def objB_def objC_def)
  have 2: "''undef'' \<noteq> ''extends'' \<and> map_of objA ''undef'' = Some (JBool True) \<and>
           \<not> isObject (JBool True) \<and>
           \<not> isArray (map_of objB ''undef'') \<and> \<not> isArray (map_of objC ''undef'')"
    by (simp add: objA_def objB_def objC_def isArray_def)
  have 3: "''globals'' \<noteq> ''__proto__'' \<and> map_of objB ''globals'' = Some (JObj [(''y'', JBool True)]) \<and>
           \<not> isArray (map_of objC ''globals'') \<and> \<not> isPlainObject (map_of objC ''globals'')"
    by (simp add: objB_def objC_def isArray_def isPlainObject_def)
  have e: "mergeFields [] [(''y'', JBool True)] = Inr [(''y'', JBool True)]"
    "mergeFields [(''y'', JBool True)] [(''x'', JBool True)]
       = Inr [(''y'', JBool True), (''x'', JBool True)]"
    by code_simp+
  from fresh[OF 3] e(1)
  have gb: "map_of (AList.delete ''extends'' mergedB) ''globals'' = Some (JObj [(''y'', JBool True)])"
    by auto
  have 4: "''globals'' \<noteq> ''__proto__'' \<and> map_of objA ''globals'' = Some (JObj [(''x'', JBool True)]) \<and>
           map_of (AList.delete ''extends'' mergedB) ''globals'' = Some (JObj [(''y'', JBool True)])"
    using gb by (simp add: objA_def)
  from objectsA[OF 4] e(2)
  have ga: "map_of (AList.delete ''extends'' mergedA) ''globals''
              = Some (JObj [(''y'', JBool True), (''x'', JBool True)])"
    by auto
  have 5: "map_of objA ''curly'' = None" "map_of objB ''curly'' = None"
    by (simp_all add: objA_def objB_def)
  note p = arrays[OF 1]
  note u = scalars[OF 2]
  note ka = keepA[OF 5(1)]
  note kb = keepB[OF 5(2)]
  from chainHost_parses chain_extends(1) chainHost_paths(1,3) chain_extends(3)
    chainHost_paths(2,4) chain_extends(5,6,7) o chain_merges r ne p u gb ga ka kb
  show ?thesis
    by (intro conjI) assumption+
qed

section \<open>C2: the key extends in the result\<close>

text \<open>
  C2, as stated, fails: a pinned file is read flat. In \<open>pinnedHost\<close> the explicit config
  path \<^verbatim>\<open>/cfg/pinned.json\<close> holds \<open>rcA\<close>, whose first key is \<^verbatim>\<open>extends\<close>; \<^verbatim>\<open>getOptions\<close>
  returns the parsed object as it is, with that key.
\<close>

theorem getOptions_extends_counterexample:
  "returned (getOptions pinnedHost pinnedResolver ''/p/a.js'') = Some ([], Inr (Some (JObj objA))) \<and>
   field (JObj objA) ''extends'' = Some (JStr ''b.json'') \<and>
   hasExtends (Some (JObj objA))"
  using pinnedHost_getOptions by (simp add: objA_def hasExtends_def)

text \<open>
  C2, amended. When \<^verbatim>\<open>getOptions\<close> resolves a non-empty path on a cache miss with no pinned
  file (explicit or legacy) on disk and no \<^verbatim>\<open>jshintConfig\<close> from a \<^verbatim>\<open>package.json\<close>, and the
  configuration comes from the project's \<^verbatim>\<open>.jshintrc\<close>, or with none found from the home
  directory's, through inheritance processing, then the returned configuration has no key
  \<^verbatim>\<open>extends\<close>, provided the value that file itself holds under \<^verbatim>\<open>extends\<close> is absent or
  truthy. Flat reads of a pinned file, the \<^verbatim>\<open>jshintConfig\<close> of a \<^verbatim>\<open>package.json\<close> and the
  legacy options are returned as they are.
\<close>

theorem inheritance_removes_extends:
  assumes miss: "\<not> truthyU (optionsCache r fsPath)"
    and flat: "flatSource h r = None"
    and path: "fsPath \<noteq> []"
    and pkg: "noPackageConfig h fsPath"
    and res: "getOptions h r fsPath = Some (shown, Inr v, r')"
  shows "(locateFile h fsPath JSHINTRC = Some (Some f) \<and> f \<noteq> [] \<and>
          (ownExtends h f = None \<or> truthyU (ownExtends h f))
            \<longrightarrow> v \<noteq> None \<and> \<not> hasExtends v) \<and>
         (locateFile h fsPath JSHINTRC = Some cf \<and> \<not> truthyPath cf \<and>
          truthyPath (userHome h) \<and> existsSync h (joinPath h (the (userHome h)) JSHINTRC) \<and>
          (ownExtends h (joinPath h (the (userHome h)) JSHINTRC) = None
             \<or> truthyU (ownExtends h (joinPath h (the (userHome h)) JSHINTRC)))
            \<longrightarrow> v \<noteq> None \<and> \<not> hasExtends v)"
proof -
  from readOptions_project[OF flat path pkg] obtain shown0 where
    ro: "readOptions h r fsPath = projectOptions h r fsPath shown0" by blast
  from res have "returned (getOptions h r fsPath) = Some (shown, Inr v)"
    by (simp add: returned_def)
  with returned_getOptions_miss[OF miss] ro
  have po: "projectOptions h r fsPath shown0 = Some (shown, Inr v)" by simp
  show ?thesis
  proof (intro conjI impI)
    assume a: "locateFile h fsPath JSHINTRC = Some (Some f) \<and> f \<noteq> [] \<and>
          (ownExtends h f = None \<or> truthyU (ownExtends h f))"
    with po projectOptions_found[of h fsPath f r shown0]
    have "map_option (\<lambda>(shown', v). (shown0 @ shown', map_sum id Some v)) (readJSHintFile h f None)
            = Some (shown, Inr v)" by simp
    from inherited_no_extends[OF this] a show "v \<noteq> None" "\<not> hasExtends v" by blast+
  next
    assume a: "locateFile h fsPath JSHINTRC = Some cf \<and> \<not> truthyPath cf \<and>
          truthyPath (userHome h) \<and> existsSync h (joinPath h (the (userHome h)) JSHINTRC) \<and>
          (ownExtends h (joinPath h (the (userHome h)) JSHINTRC) = None
             \<or> truthyU (ownExtends h (joinPath h (the (userHome h)) JSHINTRC)))"
    with po projectOptions_home[of h fsPath cf r shown0]
    have "map_option (\<lambda>(shown', v). (shown0 @ shown', map_sum id Some v))
            (readJSHintFile h (joinPath h (the (userHome h)) JSHINTRC) None)
            = Some (shown, Inr v)" by simp
    from inherited_no_extends[OF this] a show "v \<noteq> None" "\<not> hasExtends v" by blast+
  qed
qed

theorem inheritance_removes_extends_witness:
  "\<not> truthyU (optionsCache OptionsResolver_new ''/p/a.js'') \<and>
   flatSource chainHost OptionsResolver_new = None \<and>
   noPackageConfig chainHost ''/p/a.js'' \<and>
   locateFile chainHost ''/p/a.js'' JSHINTRC = Some (Some ''/p/.jshintrc'') \<and>
   truthyU (ownExtends chainHost ''/p/.jshintrc'') \<and>
   returned (getOptions chainHost OptionsResolver_new ''/p/a.js'') =
     Some ([], Inr (Some (JObj [(''predef'', JArr [JStr ''c'', JStr ''b'', JStr ''a'']),
                          (''curly'', JBool True),
                          (''globals'', JObj [(''y'', JBool True), (''x'', JBool True)]),
                          (''undef'', JBool True)]))) \<and>
   \<not> hasExtends (Some (JObj [(''predef'', JArr [JStr ''c'', JStr ''b'', JStr ''a'']),
                          (''curly'', JBool True),
                          (''globals'', JObj [(''y'', JBool True), (''x'', JBool True)]),
                          (''undef'', JBool True)])) \<and>
   flatSource homeHost OptionsResolver_new = None \<and>
   noPackageConfig homeHost ''/p/a.js'' \<and>
   locateFile homeHost ''/p/a.js'' JSHINTRC = Some None \<and>
   truthyPath (userHome homeHost) \<and>
   existsSync homeHost (joinPath homeHost (the (userHome homeHost)) JSHINTRC) \<and>
   ownExtends homeHost (joinPath homeHost (the (userHome homeHost)) JSHINTRC) = None \<and>
   returned (getOptions homeHost OptionsResolver_new ''/p/a.js'') =
     Some ([], Inr (Some (JObj objC))) \<and>
   \<not> hasExtends (Some (JObj objC))"
proof -
  have m: "\<not> truthyU (optionsCache OptionsResolver_new ''/p/a.js'')"
    by (simp add: OptionsResolver_new_def truthyU_def)
  have f: "''/p/.jshintrc'' \<noteq> []" "''/p/a.js'' \<noteq> []" "\<not> truthyPath None"
    by (simp_all add: truthyPath_def)
  note project =
    inheritance_removes_extends[OF m new_flatSource f(2) chainHost_search(1)
      chainHost_getOptions_full, THEN conjunct1, rule_format, of "''/p/.jshintrc''"]
  have 1: "\<not> hasExtends (Some (JObj [(''predef'', JArr [JStr ''c'', JStr ''b'', JStr ''a'']),
                          (''curly'', JBool True),
                          (''globals'', JObj [(''y'', JBool True), (''x'', JBool True)]),
                          (''undef'', JBool True)]))"
    using project chainHost_locate(2) f(1) chainHost_search(2) by blast
  note home =
    inheritance_removes_extends[OF m new_flatSource f(2) homeHost_search(1)
      homeHost_getOptions_full, THEN conjunct2, rule_format, of None]
  have e: "existsSync homeHost (joinPath homeHost (the (userHome homeHost)) JSHINTRC)"
    "ownExtends homeHost (joinPath homeHost (the (userHome homeHost)) JSHINTRC) = None"
    using homeHost_locate(3,5) homeHost_search(2) by simp_all
  have 2: "\<not> hasExtends (Some (JObj objC))"
    using home homeHost_locate(2,4) f(3) e by blast
  have g1: "returned (getOptions chainHost OptionsResolver_new ''/p/a.js'') =
     Some ([], Inr (Some (JObj [(''predef'', JArr [JStr ''c'', JStr ''b'', JStr ''a'']),
                          (''curly'', JBool True),
                          (''globals'', JObj [(''y'', JBool True), (''x'', JBool True)]),
                          (''undef'', JBool True)])))"
    by (rule chainHost_getOptions)
  have g2: "returned (getOptions homeHost OptionsResolver_new ''/p/a.js'') =
     Some ([], Inr (Some (JObj objC)))"
    by (simp add: returned_def homeHost_getOptions_full)
  from m new_flatSource[of chainHost] chainHost_search chainHost_locate(2) g1 1
    new_flatSource[of homeHost] homeHost_search(1) homeHost_locate(2,4) e g2 2
  show ?thesis by (intro conjI) assumption+
qed

section \<open>C3: exceptions\<close>

text \<open>
  C3, as stated, fails: \<^verbatim>\<open>getOptions\<close> can raise. The \<^verbatim>\<open>try\<close> block of \<^verbatim>\<open>readJsonFile\<close>
  only covers reading and parsing. In \<open>nullHost\<close> the project file \<^verbatim>\<open>/p/.jshintrc\<close> holds the
  text \<^verbatim>\<open>null\<close>, which is valid JSON: \<^verbatim>\<open>readJsonFile\<close> returns \<^verbatim>\<open>null\<close> without a report,
  and \<^verbatim>\<open>content.extends\<close> in \<^verbatim>\<open>readJSHintFile\<close> throws a \<^verbatim>\<open>TypeError\<close> that leaves
  \<^verbatim>\<open>getOptions\<close>: nothing is shown, nothing is cached, and the caller receives the
  exception.
\<close>

theorem getOptions_raises_counterexample:
  "parsesTo nullHost ''/p/.jshintrc'' JNull \<and>
   locateFile nullHost ''/p/a.js'' JSHINTRC = Some (Some ''/p/.jshintrc'') \<and>
   getOptions nullHost OptionsResolver_new ''/p/a.js'' = Some ([], Inl TypeError, OptionsResolver_new)"
proof -
  have m: "\<not> truthyU (optionsCache OptionsResolver_new ''/p/a.js'')"
    by (simp add: OptionsResolver_new_def truthyU_def)
  have "readJSHintFile nullHost ''/p/.jshintrc'' None = Some ([], Inl TypeError)"
    by (rule readJSHintFile_null[OF readJsonFile_parsesTo[OF nullHost_facts(1)]])
  then have "readOptions nullHost OptionsResolver_new ''/p/a.js'' = Some ([], Inl TypeError)"
    using nullHost_facts(2,3)
    by (simp add: readOptions_not_flat[OF new_flatSource] truthyPath_def projectOptions_def)
  then have "getOptions nullHost OptionsResolver_new ''/p/a.js''
               = Some ([], Inl TypeError, OptionsResolver_new)"
    by (simp add: getOptions_miss[OF m])
  with nullHost_facts(1,3) show ?thesis by simp
qed

text \<open>
  C3, amended. A failure to read or to parse a config file (comments stripped) never
  leaves \<^verbatim>\<open>readJsonFile\<close>: it shows exactly one message, which names the file and, when an
  \<^verbatim>\<open>extends\<close> pulled it in, the extending file, and the file contributes the empty object;
  a file that parses shows nothing. Inheritance processing returns an object whenever the
  chain it follows ends over files of the expected shape (\<open>chainEnds\<close>): files that fail
  to parse or parse to an ordinary object. \<^verbatim>\<open>getOptions\<close> returns to its caller, without
  an exception, whenever a pinned file exists on disk, or the upward searches end over
  such files (\<open>searchEnds\<close>; for the empty path, \<open>homeEnds\<close>). The objects have to be
  ordinary: where an array of the child meets an object of the parent whose \<^verbatim>\<open>length\<close> is
  a number above \<^verbatim>\<open>4294967295\<close>, the merge of lodash throws a \<^verbatim>\<open>RangeError\<close> that leaves
  \<^verbatim>\<open>getOptions\<close> (\<open>lengthHost\<close>).
\<close>

theorem parse_failures_are_contained:
  "(Option.bind (readFileSync h file) (\<lambda>content. parseJSON h (stripComments content)) = None
      \<longrightarrow> readJsonFile h file extendedFrom =
            ([cantLoad (if truthyPath extendedFrom
                        then file @ '' extended from '' @ the extendedFrom else file)],
             JObj [])) \<and>
   (parsesTo h file v \<longrightarrow> readJsonFile h file extendedFrom = ([], v)) \<and>
   (chainEnds h file extendedFrom
      \<longrightarrow> (\<exists>shown kvs. readJSHintFile h file extendedFrom = Some (shown, Inr (JObj kvs)))) \<and>
   (flatSource h r \<noteq> None \<or> (if fsPath \<noteq> [] then searchEnds h fsPath else homeEnds h)
      \<longrightarrow> (\<exists>shown res r'. getOptions h r fsPath = Some (shown, Inr res, r')))"
proof (intro conjI impI)
  assume "Option.bind (readFileSync h file) (\<lambda>content. parseJSON h (stripComments content)) = None"
  then show "readJsonFile h file extendedFrom =
            ([cantLoad (if truthyPath extendedFrom
                        then file @ '' extended from '' @ the extendedFrom else file)],
             JObj [])"
    by (rule readJsonFile_failed)
next
  assume "parsesTo h file v"
  then show "readJsonFile h file extendedFrom = ([], v)"
    by (rule readJsonFile_parsesTo)
next
  assume "chainEnds h file extendedFrom"
  then show "\<exists>shown kvs. readJSHintFile h file extendedFrom = Some (shown, Inr (JObj kvs))"
    by (rule chainEnds_returns)
next
  assume "flatSource h r \<noteq> None \<or> (if fsPath \<noteq> [] then searchEnds h fsPath else homeEnds h)"
  then show "\<exists>shown res r'. getOptions h r fsPath = Some (shown, Inr res, r')"
    by (intro getOptions_returns_if readOptions_returns)
qed

theorem parse_failures_are_contained_witness:
  "Option.bind (readFileSync brokenHost ''/p/b.json'')
     (\<lambda>content. parseJSON brokenHost (stripComments content)) = None \<and>
   readJsonFile brokenHost ''/p/b.json'' (Some ''/p/.jshintrc'') =
     ([''Can't load JSHint configuration from file /p/b.json extended from /p/.jshintrc. Please check the file for syntax errors.''],
      JObj []) \<and>
   parsesTo brokenHost ''/p/.jshintrc'' (JObj objA) \<and>
   readJsonFile brokenHost ''/p/.jshintrc'' None = ([], JObj objA) \<and>
   chainEnds brokenHost ''/p/.jshintrc'' None \<and>
   readJSHintFile brokenHost ''/p/.jshintrc'' None =
     Some ([''Can't load JSHint configuration from file /p/b.json extended from /p/.jshintrc. Please check the file for syntax errors.''],
           Inr (JObj [(''predef'', JArr [JStr ''a'']),
                      (''globals'', JObj [(''x'', JBool True)]), (''undef'', JBool True)])) \<and>
   searchEnds brokenHost ''/p/a.js'' \<and>
   (\<exists>shown res r'.
      getOptions brokenHost OptionsResolver_new ''/p/a.js'' = Some (shown, Inr res, r'))"
proof -
  note a = parse_failures_are_contained[of brokenHost "''/p/b.json''" "Some ''/p/.jshintrc''"
      "JObj []" OptionsResolver_new "''/p/a.js''"]
  note b = parse_failures_are_contained[of brokenHost "''/p/.jshintrc''" None
      "JObj objA" OptionsResolver_new "''/p/a.js''"]
  from a[THEN conjunct1] brokenHost_facts(2)
  have 1: "readJsonFile brokenHost ''/p/b.json'' (Some ''/p/.jshintrc'') =
     ([''Can't load JSHint configuration from file /p/b.json extended from /p/.jshintrc. Please check the file for syntax errors.''],
      JObj [])"
    by (simp add: truthyPath_def cantLoad_def)
  from b[THEN conjunct2, THEN conjunct1] brokenHost_facts(1)
  have 2: "readJsonFile brokenHost ''/p/.jshintrc'' None = ([], JObj objA)"
    by simp
  have s: "searchEnds brokenHost ''/p/a.js''"
    using brokenHost_facts(5,6) brokenHost_chainEnds
    by (simp add: searchEnds_def truthyPath_def)
  have ne: "''/p/a.js'' \<noteq> []" by simp
  from b[THEN conjunct2, THEN conjunct2, THEN conjunct2] s ne
  have 3: "\<exists>shown res r'.
      getOptions brokenHost OptionsResolver_new ''/p/a.js'' = Some (shown, Inr res, r')"
    by simp
  from brokenHost_facts(2) 1 brokenHost_facts(1) 2 brokenHost_chainEnds brokenHost_resolves s 3
  show ?thesis by (intro conjI) assumption+
qed

section \<open>C4: the explicit config path\<close>

text \<open>
  C4, as stated, fails: \<^verbatim>\<open>getOptions\<close> asks its cache first. The resolver is configured
  with the explicit config path \<^verbatim>\<open>/cfg/pinned.json\<close>. While that file does not exist
  (\<open>projectHost\<close>), \<^verbatim>\<open>getOptions\<close> resolves \<^verbatim>\<open>/p/a.js\<close> from the project's \<^verbatim>\<open>.jshintrc\<close> and
  stores the result. Once the pinned file exists (\<open>pinnedHost\<close>), the next call for the
  same path, with no \<^verbatim>\<open>configure\<close> or \<^verbatim>\<open>clear\<close> in between, still returns the stored
  configuration of the project file and not the content of the pinned file.
\<close>

theorem explicit_config_cached_counterexample:
  "getOptions projectHost pinnedResolver ''/p/a.js'' =
     Some ([], Inr (Some (JObj objC)),
           pinnedResolver\<lparr>optionsCache := (optionsCache pinnedResolver)
             (''/p/a.js'' := Some (JObj objC))\<rparr>) \<and>
   configPath (pinnedResolver\<lparr>optionsCache := (optionsCache pinnedResolver)
             (''/p/a.js'' := Some (JObj objC))\<rparr>) = Some ''/cfg/pinned.json'' \<and>
   existsSync pinnedHost ''/cfg/pinned.json'' \<and>
   parsesTo pinnedHost ''/cfg/pinned.json'' (JObj objA) \<and>
   getOptions pinnedHost
     (pinnedResolver\<lparr>optionsCache := (optionsCache pinnedResolver)
             (''/p/a.js'' := Some (JObj objC))\<rparr>) ''/p/a.js'' =
     Some ([], Inr (Some (JObj objC)),
           pinnedResolver\<lparr>optionsCache := (optionsCache pinnedResolver)
             (''/p/a.js'' := Some (JObj objC))\<rparr>) \<and>
   JObj objC \<noteq> JObj objA"
proof -
  let ?r = "pinnedResolver\<lparr>optionsCache := (optionsCache pinnedResolver)
             (''/p/a.js'' := Some (JObj objC))\<rparr>"
  have t: "truthyU (optionsCache ?r ''/p/a.js'')"
    by (simp add: truthyU_def)
  have c: "configPath ?r = Some ''/cfg/pinned.json''"
    by (simp add: pinnedHost_facts(4))
  have d: "JObj objC \<noteq> JObj objA"
    by (simp add: objA_def objC_def)
  from projectHost_getOptions c pinnedHost_facts(2,1) getOptions_hit[OF t, of pinnedHost] d
  show ?thesis by simp
qed

text \<open>
  C4, amended. Whenever an explicit config path is configured and the file exists on
  disk, the resolution step \<^verbatim>\<open>readOptions\<close> returns what \<^verbatim>\<open>readJsonFile\<close> gives for that
  file, and so does \<^verbatim>\<open>getOptions\<close> when the cache holds no truthy value for the path: the
  parsed content as it is (\<^verbatim>\<open>extends\<close> included, no inheritance processing), or the empty
  object and a report when the file does not parse. No other file is consulted: on every
  host that holds the same pinned file and parses as this one does, whatever else it
  holds, the result is the same. When the cache holds a truthy value for the path,
  \<^verbatim>\<open>getOptions\<close> returns that value and reads no file.
\<close>

theorem explicit_config_flat_read:
  assumes "configPath r = Some p" and "p \<noteq> []" and "existsSync h p"
  shows "readOptions h r fsPath =
           Some (fst (readJsonFile h p None), Inr (Some (snd (readJsonFile h p None)))) \<and>
         (\<not> truthyU (optionsCache r fsPath) \<longrightarrow>
            returned (getOptions h r fsPath) =
              Some (fst (readJsonFile h p None), Inr (Some (snd (readJsonFile h p None))))) \<and>
         (parsesTo h p v \<longrightarrow> readJsonFile h p None = ([], v)) \<and>
         (existsSync h' p \<and> readFileSync h' p = readFileSync h p \<and> parseJSON h' = parseJSON h
            \<longrightarrow> readOptions h' r fsPath = readOptions h r fsPath) \<and>
         (truthyU (optionsCache r fsPath) \<longrightarrow>
            getOptions h r fsPath = Some ([], Inr (optionsCache r fsPath), r))"
proof -
  from assms have f: "flatSource h r = Some p"
    by (simp add: flatSource_def truthyPath_def)
  have same: "readOptions h' r fsPath = readOptions h r fsPath"
    if "existsSync h' p \<and> readFileSync h' p = readFileSync h p \<and> parseJSON h' = parseJSON h"
  proof -
    from assms that have f': "flatSource h' r = Some p"
      by (simp add: flatSource_def truthyPath_def)
    from that have "readJsonFile h' p None = readJsonFile h p None"
      by (simp add: readJsonFile_def)
    with readOptions_flat[OF f] readOptions_flat[OF f'] show ?thesis by simp
  qed
  from readOptions_flat[OF f] returned_getOptions_miss[of r fsPath h] readJsonFile_parsesTo[of h p v None]
    same getOptions_hit[of r fsPath h]
  show ?thesis by auto
qed

theorem explicit_config_flat_read_witness:
  "configPath pinnedResolver = Some ''/cfg/pinned.json'' \<and>
   existsSync pinnedHost ''/cfg/pinned.json'' \<and>
   locateFile pinnedHost ''/p/a.js'' JSHINTRC = Some (Some ''/p/.jshintrc'') \<and>
   parsesTo pinnedHost ''/cfg/pinned.json'' (JObj objA) \<and>
   readOptions pinnedHost pinnedResolver ''/p/a.js'' = Some ([], Inr (Some (JObj objA))) \<and>
   returned (getOptions pinnedHost pinnedResolver ''/p/a.js'') = Some ([], Inr (Some (JObj objA))) \<and>
   existsSync pinnedOnlyHost ''/cfg/pinned.json'' \<and>
   readFileSync pinnedOnlyHost ''/cfg/pinned.json'' = readFileSync pinnedHost ''/cfg/pinned.json'' \<and>
   parseJSON pinnedOnlyHost = parseJSON pinnedHost \<and>
   readOptions pinnedOnlyHost pinnedResolver ''/p/a.js''
     = readOptions pinnedHost pinnedResolver ''/p/a.js'' \<and>
   configPath (pinnedResolver\<lparr>optionsCache := (optionsCache pinnedResolver)
             (''/p/a.js'' := Some (JObj objC))\<rparr>) = Some ''/cfg/pinned.json'' \<and>
   truthyU (optionsCache (pinnedResolver\<lparr>optionsCache := (optionsCache pinnedResolver)
             (''/p/a.js'' := Some (JObj objC))\<rparr>) ''/p/a.js'') \<and>
   getOptions pinnedHost
     (pinnedResolver\<lparr>optionsCache := (optionsCache pinnedResolver)
             (''/p/a.js'' := Some (JObj objC))\<rparr>) ''/p/a.js'' =
     Some ([], Inr (optionsCache (pinnedResolver\<lparr>optionsCache := (optionsCache pinnedResolver)
             (''/p/a.js'' := Some (JObj objC))\<rparr>) ''/p/a.js''),
           pinnedResolver\<lparr>optionsCache := (optionsCache pinnedResolver)
             (''/p/a.js'' := Some (JObj objC))\<rparr>)"
proof -
  let ?r = "pinnedResolver\<lparr>optionsCache := (optionsCache pinnedResolver)
             (''/p/a.js'' := Some (JObj objC))\<rparr>"
  have l: "locateFile pinnedHost ''/p/a.js'' JSHINTRC = Some (Some ''/p/.jshintrc'')"
    by (simp add: locateFile.simps pinnedHost_def exampleHost_def joined_def parentDir_def
        Let_def JSHINTRC_def)
  have o: "existsSync pinnedOnlyHost ''/cfg/pinned.json''"
    "readFileSync pinnedOnlyHost ''/cfg/pinned.json'' = readFileSync pinnedHost ''/cfg/pinned.json''"
    "parseJSON pinnedOnlyHost = parseJSON pinnedHost"
    by (simp_all add: pinnedOnlyHost_def pinnedHost_def exampleHost_def)
  have ne: "''/cfg/pinned.json'' \<noteq> []" by simp
  note t = explicit_config_flat_read[OF pinnedHost_facts(4) ne pinnedHost_facts(2),
      of "''/p/a.js''" "JObj objA" pinnedOnlyHost]
  have rj: "readJsonFile pinnedHost ''/cfg/pinned.json'' None = ([], JObj objA)"
    using t pinnedHost_facts(1) by blast
  have r: "readOptions pinnedHost pinnedResolver ''/p/a.js'' = Some ([], Inr (Some (JObj objA)))"
    using t[THEN conjunct1] rj by simp
  have g: "returned (getOptions pinnedHost pinnedResolver ''/p/a.js'') = Some ([], Inr (Some (JObj objA)))"
    using t[THEN conjunct2, THEN conjunct1] pinnedHost_facts(5)[of "''/p/a.js''"] rj by simp
  have s: "readOptions pinnedOnlyHost pinnedResolver ''/p/a.js''
             = readOptions pinnedHost pinnedResolver ''/p/a.js''"
    using t o by blast
  have c: "configPath ?r = Some ''/cfg/pinned.json''"
    by (simp add: pinnedHost_facts(4))
  have u: "truthyU (optionsCache ?r ''/p/a.js'')"
    by (simp add: truthyU_def)
  note hit = explicit_config_flat_read[OF c ne pinnedHost_facts(2),
      THEN conjunct2, THEN conjunct2, THEN conjunct2, THEN conjunct2, rule_format, OF u]
  from pinnedHost_facts(4,2) l pinnedHost_facts(1) r g o s c u hit show ?thesis
    by (intro conjI) assumption+
qed

section \<open>C5: the cache\<close>

text \<open>
  C5, as stated, fails: a falsy result is not cached. A new resolver holds \<^verbatim>\<open>null\<close> as
  legacy options. On \<open>emptyHost\<close>, where no configuration file exists, \<^verbatim>\<open>getOptions\<close>
  returns that \<^verbatim>\<open>null\<close> and stores it. A second call for the same path, with no
  \<^verbatim>\<open>configure\<close> or \<^verbatim>\<open>clear\<close> in between, finds the stored value falsy (\<^verbatim>\<open>if (!result)\<close>)
  and resolves again: after \<^verbatim>\<open>.jshintrc\<close> has appeared in the home directory (\<open>homeHost\<close>)
  it returns that file's configuration.
\<close>

theorem cache_falsy_result_counterexample:
  "getOptions emptyHost OptionsResolver_new ''/p/a.js'' =
     Some ([], Inr (Some JNull),
           OptionsResolver_new\<lparr>optionsCache := (optionsCache OptionsResolver_new)
             (''/p/a.js'' := Some JNull)\<rparr>) \<and>
   returned (getOptions homeHost
       (OptionsResolver_new\<lparr>optionsCache := (optionsCache OptionsResolver_new)
             (''/p/a.js'' := Some JNull)\<rparr>) ''/p/a.js'')
     = Some ([], Inr (Some (JObj objC)))"
proof -
  let ?r = "OptionsResolver_new\<lparr>optionsCache := (optionsCache OptionsResolver_new)
             (''/p/a.js'' := Some JNull)\<rparr>"
  have m: "\<not> truthyU (optionsCache ?r ''/p/a.js'')"
    by (simp add: truthyU_def)
  have f: "flatSource homeHost ?r = None"
    by (simp add: flatSource_def OptionsResolver_new_def truthyPath_def legacyConfig_def)
  from returned_getOptions_miss[OF m, where h=homeHost] homeHost_readOptions[OF f]
    emptyHost_getOptions
  show ?thesis by simp
qed

text \<open>
  C5, amended. For every file path, when a call of \<^verbatim>\<open>getOptions\<close> returns a truthy value
  (every object, the empty object of a failed parse included), the next call for the same
  path with no \<^verbatim>\<open>configure\<close> or \<^verbatim>\<open>clear\<close> in between returns the same value and shows
  nothing, whatever the files on disk have become (\<open>h2\<close> is any host). A falsy result is
  not kept: the next call resolves again. After \<^verbatim>\<open>configure\<close>, and after \<^verbatim>\<open>clear\<close>, the
  next call resolves again on the file system it finds.
\<close>

theorem cache_returns_truthy_results:
  "(getOptions h1 r fsPath = Some (shown, Inr v, r1) \<and> truthyU v
      \<longrightarrow> getOptions h2 r1 fsPath = Some ([], Inr v, r1)) \<and>
   returned (getOptions h (OptionsResolver_configure path opts r) fsPath)
     = readOptions h (OptionsResolver_configure path opts r) fsPath \<and>
   returned (getOptions h (OptionsResolver_clear opts r) fsPath)
     = readOptions h (OptionsResolver_clear opts r) fsPath \<and>
   (getOptions h1 r fsPath = Some (shown, Inr v, r1) \<and> \<not> truthyU v
      \<longrightarrow> returned (getOptions h2 r1 fsPath) = readOptions h2 r1 fsPath)"
proof (intro conjI impI)
  assume a: "getOptions h1 r fsPath = Some (shown, Inr v, r1) \<and> truthyU v"
  have "optionsCache r1 fsPath = v"
  proof (cases "truthyU (optionsCache r fsPath)")
    case True
    with a show ?thesis by (auto simp: getOptions_hit)
  next
    case False
    with a show ?thesis
      by (auto simp: getOptions_miss split: Option.bind_splits sum.splits)
  qed
  with a show "getOptions h2 r1 fsPath = Some ([], Inr v, r1)"
    by (simp add: getOptions_hit)
next
  show "returned (getOptions h (OptionsResolver_configure path opts r) fsPath)
     = readOptions h (OptionsResolver_configure path opts r) fsPath"
    by (rule returned_getOptions_miss) (simp add: OptionsResolver_configure_def truthyU_def)
next
  show "returned (getOptions h (OptionsResolver_clear opts r) fsPath)
     = readOptions h (OptionsResolver_clear opts r) fsPath"
    by (rule returned_getOptions_miss) (simp add: OptionsResolver_clear_def truthyU_def)
next
  assume a: "getOptions h1 r fsPath = Some (shown, Inr v, r1) \<and> \<not> truthyU v"
  have "optionsCache r1 fsPath = v"
  proof (cases "truthyU (optionsCache r fsPath)")
    case True
    with a show ?thesis by (auto simp: getOptions_hit)
  next
    case False
    with a show ?thesis
      by (auto simp: getOptions_miss split: Option.bind_splits sum.splits)
  qed
  with a have "\<not> truthyU (optionsCache r1 fsPath)" by simp
  then show "returned (getOptions h2 r1 fsPath) = readOptions h2 r1 fsPath"
    by (rule returned_getOptions_miss)
qed

theorem cache_returns_truthy_results_witness:
  "getOptions chainHost OptionsResolver_new ''/p/a.js'' =
     Some ([], Inr (Some (JObj [(''predef'', JArr [JStr ''c'', JStr ''b'', JStr ''a'']),
                          (''curly'', JBool True),
                          (''globals'', JObj [(''y'', JBool True), (''x'', JBool True)]),
                          (''undef'', JBool True)])),
           OptionsResolver_new\<lparr>optionsCache := (optionsCache OptionsResolver_new)
             (''/p/a.js'' := Some (JObj [(''predef'', JArr [JStr ''c'', JStr ''b'', JStr ''a'']),
                          (''curly'', JBool True),
                          (''globals'', JObj [(''y'', JBool True), (''x'', JBool True)]),
                          (''undef'', JBool True)]))\<rparr>) \<and>
   truthyU (Some (JObj [(''predef'', JArr [JStr ''c'', JStr ''b'', JStr ''a'']),
                          (''curly'', JBool True),
                          (''globals'', JObj [(''y'', JBool True), (''x'', JBool True)]),
                          (''undef'', JBool True)])) \<and>
   getOptions emptyHost
     (OptionsResolver_new\<lparr>optionsCache := (optionsCache OptionsResolver_new)
             (''/p/a.js'' := Some (JObj [(''predef'', JArr [JStr ''c'', JStr ''b'', JStr ''a'']),
                          (''curly'', JBool True),
                          (''globals'', JObj [(''y'', JBool True), (''x'', JBool True)]),
                          (''undef'', JBool True)]))\<rparr>) ''/p/a.js'' =
     Some ([], Inr (Some (JObj [(''predef'', JArr [JStr ''c'', JStr ''b'', JStr ''a'']),
                          (''curly'', JBool True),
                          (''globals'', JObj [(''y'', JBool True), (''x'', JBool True)]),
                          (''undef'', JBool True)])),
           OptionsResolver_new\<lparr>optionsCache := (optionsCache OptionsResolver_new)
             (''/p/a.js'' := Some (JObj [(''predef'', JArr [JStr ''c'', JStr ''b'', JStr ''a'']),
                          (''curly'', JBool True),
                          (''globals'', JObj [(''y'', JBool True), (''x'', JBool True)]),
                          (''undef'', JBool True)]))\<rparr>) \<and>
   getOptions emptyHost OptionsResolver_new ''/p/a.js'' =
     Some ([], Inr (Some JNull),
           OptionsResolver_new\<lparr>optionsCache := (optionsCache OptionsResolver_new)
             (''/p/a.js'' := Some JNull)\<rparr>) \<and>
   \<not> truthyU (Some JNull) \<and>
   returned (getOptions chainHost
       (OptionsResolver_new\<lparr>optionsCache := (optionsCache OptionsResolver_new)
             (''/p/a.js'' := Some JNull)\<rparr>) ''/p/a.js'')
     = readOptions chainHost
       (OptionsResolver_new\<lparr>optionsCache := (optionsCache OptionsResolver_new)
             (''/p/a.js'' := Some JNull)\<rparr>) ''/p/a.js''"
proof -
  have t: "truthyU (Some (JObj [(''predef'', JArr [JStr ''c'', JStr ''b'', JStr ''a'']),
                          (''curly'', JBool True),
                          (''globals'', JObj [(''y'', JBool True), (''x'', JBool True)]),
                          (''undef'', JBool True)]))"
    by (simp add: truthyU_def)
  note c = cache_returns_truthy_results[THEN conjunct1, rule_format,
      OF conjI[OF chainHost_getOptions_full t], of emptyHost]
  have f: "\<not> truthyU (Some JNull)"
    by (simp add: truthyU_def)
  note d = cache_returns_truthy_results[THEN conjunct2, THEN conjunct2, THEN conjunct2,
      rule_format, OF conjI[OF emptyHost_getOptions f], of chainHost]
  from chainHost_getOptions_full t c emptyHost_getOptions f d show ?thesis
    by (intro conjI) assumption+
qed

section \<open>C6: comment stripping\<close>

text \<open>
  C6, as stated, fails: stripping is not idempotent on every text. In
  \<^verbatim>\<open>"/*\<close>, backslash, line feed, \<^verbatim>\<open>*/"//"\<close> the first quote opens no string (the backslash
  before the line feed stops alternative 1), the block comment behind it is removed and
  the string \<^verbatim>\<open>"//"\<close> is kept: the result is \<^verbatim>\<open>""//"\<close>. Stripped again, \<^verbatim>\<open>""\<close> is a
  string and \<^verbatim>\<open>//"\<close> a line comment at the end of the text: the result is \<^verbatim>\<open>""\<close>.
\<close>

theorem stripComments_not_idempotent:
  "stripComments (stripComments (js ''\"/*'' @ [92, 10] @ js ''*/\"//\"''))
     \<noteq> stripComments (js ''\"/*'' @ [92, 10] @ js ''*/\"//\"'')"
  by code_simp

text \<open>
  C6, amended. Comment stripping is idempotent on every tidy text, that is every text in
  which the scan leaves no quote and no slash outside the strings and comments it
  recognises. A double- or single-quoted string literal at the scan position is copied as
  it is, whatever it contains (\<open>quoted q s = Some (s, [])\<close>: \<open>s\<close> is the body of a literal
  and its closing quote). Stripping \<^verbatim>\<open>{"a": "http://x"}\<close> gives the text unchanged, and
  stripping \<^verbatim>\<open>// c\<close>, line feed, \<^verbatim>\<open>{"a":1}\<close> gives the line feed and \<^verbatim>\<open>{"a":1}\<close>.
\<close>

theorem stripComments_idempotent_on_tidy:
  "(tidy x \<longrightarrow> stripComments (stripComments x) = stripComments x) \<and>
   ((q = 34 \<or> q = 39) \<and> quoted q s = Some (s, []) \<longrightarrow>
      stripComments (q # s @ z) = q # s @ stripComments z) \<and>
   stripComments (js ''{\"a\": \"http://x\"}'') = js ''{\"a\": \"http://x\"}'' \<and>
   stripComments (js ''// c'' @ [10] @ js ''{\"a\":1}'') = [10] @ js ''{\"a\":1}''"
proof (intro conjI impI)
  assume "tidy x"
  then show "stripComments (stripComments x) = stripComments x"
    by (rule stripComments_idem_tidy)
next
  assume a: "(q = 34 \<or> q = 39) \<and> quoted q s = Some (s, [])"
  then have "quoted q (s @ []) = Some (s, [])" by simp
  with a show "stripComments (q # s @ z) = q # s @ stripComments z"
    using stripComments_quoted[of q s "[]" z] by blast
next
  show "stripComments (js ''{\"a\": \"http://x\"}'') = js ''{\"a\": \"http://x\"}''"
    by code_simp
next
  show "stripComments (js ''// c'' @ [10] @ js ''{\"a\":1}'') = [10] @ js ''{\"a\":1}''"
    by code_simp
qed

theorem stripComments_idempotent_on_tidy_witness:
  "tidy (js ''{\"a\": \"http://x\"} // c'') \<and>
   stripComments (stripComments (js ''{\"a\": \"http://x\"} // c''))
     = stripComments (js ''{\"a\": \"http://x\"} // c'') \<and>
   quoted 34 (js ''/* a */ // b\"'') = Some (js ''/* a */ // b\"'', []) \<and>
   stripComments (34 # js ''/* a */ // b\"'' @ js '' /* c */'')
     = 34 # js ''/* a */ // b\"'' @ stripComments (js '' /* c */'')"
proof -
  have t: "tidy (js ''{\"a\": \"http://x\"} // c'')"
    by code_simp
  have q: "quoted 34 (js ''/* a */ // b\"'') = Some (js ''/* a */ // b\"'', [])"
    by code_simp
  from t q
    stripComments_idempotent_on_tidy
      [of "js ''{\"a\": \"http://x\"} // c''" 34 "js ''/* a */ // b\"''" "js '' /* c */''"]
  show ?thesis by simp
qed

section \<open>C7: the patterns that decide an exclusion\<close>




section \<open>C8: a parent that does not exist\<close>

text \<open>
  C8. A config file that parses to an object whose \<^verbatim>\<open>extends\<close> is a non-empty string
  naming a path that does not exist resolves to the file's own fields without
  \<^verbatim>\<open>extends\<close>, every other key unchanged, and shows exactly one message, which names the
  missing file and the one that extends it. Whether the parent exists or not, whenever
  inheritance processing of such a file returns a value, that value has no key
  \<^verbatim>\<open>extends\<close>.
\<close>

theorem extends_missing_parent:
  assumes "parsesTo h file (JObj kvs)"
    and "map_of kvs ''extends'' = Some (JStr ext)" and "ext \<noteq> []"
  shows "(\<not> existsSync h (resolvePath h (dirname h file) ext) \<longrightarrow>
            readJSHintFile h file extendedFrom =
              Some ([cantFind (resolvePath h (dirname h file) ext) file],
                    Inr (JObj (AList.delete ''extends'' kvs))) \<and>
            (\<forall>k. k \<noteq> ''extends'' \<longrightarrow>
               map_of (AList.delete ''extends'' kvs) k = map_of kvs k)) \<and>
         (readJSHintFile h file extendedFrom = Some (shown, Inr v)
            \<longrightarrow> field v ''extends'' = None)"
proof (intro conjI impI allI)
  assume "\<not> existsSync h (resolvePath h (dirname h file) ext)"
  from readJSHintFile_missing[OF readJsonFile_parsesTo[OF assms(1)] assms(2,3) this]
  show "readJSHintFile h file extendedFrom =
              Some ([cantFind (resolvePath h (dirname h file) ext) file],
                    Inr (JObj (AList.delete ''extends'' kvs)))"
    by simp
next
  fix k :: string
  assume "k \<noteq> ''extends''"
  then show "map_of (AList.delete ''extends'' kvs) k = map_of kvs k"
    by (simp add: delete_conv')
next
  assume r: "readJSHintFile h file extendedFrom = Some (shown, Inr v)"
  from readJSHintFile_result[OF r] readJsonFile_parsesTo[OF assms(1), of extendedFrom] assms(2,3)
  show "field v ''extends'' = None"
    by (auto simp: truthyU_def)
qed

theorem extends_missing_parent_witness:
  "parsesTo missingHost ''/p/.jshintrc'' (JObj objA) \<and>
   map_of objA ''extends'' = Some (JStr ''b.json'') \<and>
   resolvePath missingHost (dirname missingHost ''/p/.jshintrc'') ''b.json'' = ''/p/b.json'' \<and>
   \<not> existsSync missingHost ''/p/b.json'' \<and>
   readJSHintFile missingHost ''/p/.jshintrc'' None =
     Some ([''Can't find JSHint file /p/b.json extended from /p/.jshintrc''],
           Inr (JObj [(''predef'', JArr [JStr ''a'']),
                      (''globals'', JObj [(''x'', JBool True)]), (''undef'', JBool True)])) \<and>
   parsesTo chainHost ''/p/.jshintrc'' (JObj objA) \<and>
   readJSHintFile chainHost ''/p/.jshintrc'' None =
     Some ([], Inr (JObj [(''predef'', JArr [JStr ''c'', JStr ''b'', JStr ''a'']),
                          (''curly'', JBool True),
                          (''globals'', JObj [(''y'', JBool True), (''x'', JBool True)]),
                          (''undef'', JBool True)])) \<and>
   field (JObj [(''predef'', JArr [JStr ''c'', JStr ''b'', JStr ''a'']),
                (''curly'', JBool True),
                (''globals'', JObj [(''y'', JBool True), (''x'', JBool True)]),
                (''undef'', JBool True)]) ''extends'' = None"
proof -
  have p: "parsesTo missingHost ''/p/.jshintrc'' (JObj objA)"
    by (simp add: parsesTo_def missingHost_def exampleHost_def rc_strip)
  have e: "map_of objA ''extends'' = Some (JStr ''b.json'')" "''b.json'' \<noteq> []"
    by (simp_all add: objA_def)
  have q: "resolvePath missingHost (dirname missingHost ''/p/.jshintrc'') ''b.json'' = ''/p/b.json''"
    "\<not> existsSync missingHost ''/p/b.json''"
    by (simp_all add: missingHost_def exampleHost_def parentDir_def joined_def)
  have v: "AList.delete ''extends'' objA =
      [(''predef'', JArr [JStr ''a'']), (''globals'', JObj [(''x'', JBool True)]),
       (''undef'', JBool True)]"
    by (simp add: objA_def)
  from extends_missing_parent[OF p e, THEN conjunct1, rule_format, of None] q
  have r: "readJSHintFile missingHost ''/p/.jshintrc'' None =
     Some ([''Can't find JSHint file /p/b.json extended from /p/.jshintrc''],
           Inr (JObj [(''predef'', JArr [JStr ''a'']),
                      (''globals'', JObj [(''x'', JBool True)]), (''undef'', JBool True)]))"
    by (simp add: v cantFind_def)
  note n = extends_missing_parent[OF chainHost_parses(1) e, THEN conjunct2, rule_format,
      OF chainHost_resolves]
  from p e(1) q r chainHost_parses(1) chainHost_resolves n show ?thesis
    by (intro conjI) assumption+
qed

section \<open>C9: the empty path\<close>

text \<open>
  C9. For every host, every matcher state and every root argument, \<^verbatim>\<open>excludes\<close> called
  with the empty path returns \<^verbatim>\<open>true\<close> and leaves the matcher as it was: neither the
  cache nor the file system nor the patterns take part.
\<close>

theorem excludes_empty_path:
  "excludes h m [] root = Some (True, m)"
  by (simp add: excludes_def)

section \<open>C10: clear\<close>

text \<open>
  C10. \<^verbatim>\<open>clear\<close> replaces the cache by an empty one and changes nothing else:
  \<^verbatim>\<open>OptionsResolver.clear\<close> leaves the explicit config path and the legacy options as they
  are, \<^verbatim>\<open>FileMatcher.clear\<close> leaves the ignore-file path and the default exclude patterns
  as they are, and the argument passed to either makes no difference.
\<close>

theorem clear_resets_only_the_cache:
  "configPath (OptionsResolver_clear opts r) = configPath r \<and>
   jshintOptions (OptionsResolver_clear opts r) = jshintOptions r \<and>
   optionsCache (OptionsResolver_clear opts r) = (\<lambda>k. None) \<and>
   OptionsResolver_clear opts r = OptionsResolver_clear opts' r \<and>
   fmConfigPath (FileMatcher_clear exclude m) = fmConfigPath m \<and>
   defaultExcludePatterns (FileMatcher_clear exclude m) = defaultExcludePatterns m \<and>
   excludeCache (FileMatcher_clear exclude m) = Map.empty \<and>
   FileMatcher_clear exclude m = FileMatcher_clear exclude' m"
  by (simp add: OptionsResolver_clear_def FileMatcher_clear_def)

end
